theory Spec2Isabelle
  imports Complex_Main
begin

section \<open>Python values and primitives used by \<open>image.py\<close>\<close>

text \<open>
  Exceptions that the modelled code can raise and does not catch. \<open>ScreenshotError\<close>
  stands for whatever \<open>pyautogui.screenshot()\<close> raises when a capture fails.
\<close>

datatype py_error = KeyError | ValueError | ZeroDivisionError | OverflowError | ScreenshotError

subsection \<open>\<open>str\<close> of an integer\<close>

fun str_nat :: "nat \<Rightarrow> string" where
  "str_nat n = (if n < 10 then [''0123456789'' ! n]
                else str_nat (n div 10) @ [''0123456789'' ! (n mod 10)])"

declare str_nat.simps [simp del]

definition str_int :: "int \<Rightarrow> string" where
  "str_int i = (if i < 0 then CHR ''-'' # str_nat (nat (- i)) else str_nat (nat i))"

subsection \<open>Double-precision floats\<close>

text \<open>
  A finite double is kept as mantissa and binary exponent: \<open>Double m e\<close> is the number
  \<open>m * 2 ^ e\<close>. \<open>round_ratio a b\<close> is the double nearest to the positive fraction
  \<open>a / b\<close>: 53 significant bits, ties to the even mantissa, exponent not below \<open>-1074\<close>
  (the subnormal range) and not bounded above; overflow is tested on the rounded value, as
  IEEE 754 and CPython do.
\<close>

datatype double = Double (mant: int) (expo: int)

datatype pyfloat = Finite double | Infinity

fun bit_length :: "nat \<Rightarrow> nat" where
  "bit_length n = (if n = 0 then 0 else Suc (bit_length (n div 2)))"

declare bit_length.simps [simp del]

definition ilog2_ratio :: "int \<Rightarrow> int \<Rightarrow> int" where
  "ilog2_ratio a b =
     (if b \<le> a then int (bit_length (nat (a div b))) - 1
      else - int (bit_length (nat ((b - 1) div a))))"

text \<open>
  \<open>tie_break f r den\<close> picks between \<open>f\<close> and \<open>f + 1\<close> for a quotient with integer part
  \<open>f\<close> and remainder \<open>r\<close> out of \<open>den\<close>: the nearer one, and the even one at a tie.
\<close>

definition tie_break :: "int \<Rightarrow> int \<Rightarrow> int \<Rightarrow> int" where
  "tie_break f r den =
     (if 2 * r < den then f
      else if den < 2 * r then f + 1
      else if even f then f else f + 1)"

definition nearest_even_div :: "int \<Rightarrow> int \<Rightarrow> int" where
  "nearest_even_div num den = tie_break (num div den) (num mod den) den"

definition round_at :: "int \<Rightarrow> int \<Rightarrow> int \<Rightarrow> double" where
  "round_at e a b =
     (if e < 0 then Double (nearest_even_div (a * 2 ^ nat (- e)) b) e
      else Double (nearest_even_div a (b * 2 ^ nat e)) e)"

definition round_ratio :: "int \<Rightarrow> int \<Rightarrow> double" where
  "round_ratio a b = round_at (max (ilog2_ratio a b - 52) (- 1074)) a b"

definition overflows :: "double \<Rightarrow> bool" where
  "overflows d = (0 \<le> expo d \<and> 2 ^ 1024 \<le> \<bar>mant d\<bar> * 2 ^ nat (expo d))"

definition dneg :: "double \<Rightarrow> double" where
  "dneg d = Double (- mant d) (expo d)"

text \<open>The rational number that a double stands for.\<close>

definition dval :: "double \<Rightarrow> rat" where
  "dval d = (if 0 \<le> expo d then of_int (mant d) * 2 ^ nat (expo d)
             else of_int (mant d) / 2 ^ nat (- expo d))"

text \<open>
  A rounded magnitude \<open>d\<close> with its sign: \<open>OverflowError\<close> where CPython raises it on a
  result too large for a float.
\<close>

definition signed_or_raise :: "bool \<Rightarrow> double \<Rightarrow> py_error + double" where
  "signed_or_raise negative d =
     (if overflows d then Inl OverflowError
      else Inr (if negative then dneg d else d))"

text \<open>\<open>a / b\<close> on two Python ints: the correctly rounded quotient.\<close>

definition py_truediv :: "int \<Rightarrow> int \<Rightarrow> py_error + double" where
  "py_truediv a b =
     (if b = 0 then Inl ZeroDivisionError
      else signed_or_raise ((a < 0) \<noteq> (b < 0)) (round_ratio \<bar>a\<bar> \<bar>b\<bar>))"

text \<open>The conversion of a Python int to a float, as in \<open>int * float\<close> and \<open>1.0 / int\<close>.\<close>

definition py_float :: "int \<Rightarrow> py_error + double" where
  "py_float n = signed_or_raise (n < 0) (round_ratio \<bar>n\<bar> 1)"

text \<open>
  The product of two finite floats: the exact product \<open>m * 2 ^ e\<close>, rounded; an infinity
  on overflow, which a float product does not raise.
\<close>

definition signed_or_inf :: "bool \<Rightarrow> double \<Rightarrow> pyfloat" where
  "signed_or_inf negative d =
     (if overflows d then Infinity
      else Finite (if negative then dneg d else d))"

definition round_scaled :: "int \<Rightarrow> int \<Rightarrow> double" where
  "round_scaled m e =
     (if e < 0 then round_ratio m (2 ^ nat (- e))
      else round_ratio (m * 2 ^ nat e) 1)"

definition float_mul :: "double \<Rightarrow> double \<Rightarrow> pyfloat" where
  "float_mul x y =
     signed_or_inf (mant x * mant y < 0) (round_scaled \<bar>mant x * mant y\<bar> (expo x + expo y))"

text \<open>\<open>int * float\<close>: the int is converted first.\<close>

definition py_mul_int_float :: "int \<Rightarrow> double \<Rightarrow> py_error + pyfloat" where
  "py_mul_int_float n y =
     (case py_float n of
        Inl err \<Rightarrow> Inl err
      | Inr x \<Rightarrow> Inr (float_mul x y))"

text \<open>\<open>int(x)\<close> on a float: truncation towards zero; an infinity raises.\<close>

definition py_int :: "pyfloat \<Rightarrow> py_error + int" where
  "py_int x =
     (case x of
        Infinity \<Rightarrow> Inl OverflowError
      | Finite d \<Rightarrow>
          Inr (if 0 \<le> expo d then mant d * 2 ^ nat (expo d)
               else if 0 \<le> mant d then mant d div 2 ^ nat (- expo d)
               else - ((- mant d) div 2 ^ nat (- expo d))))"

text \<open>
  \<open>time.sleep(1.0 / n)\<close>: the int is converted to a float, the division raises on
  zero, and \<open>time.sleep\<close> raises \<open>ValueError\<close> on a negative length.
\<close>

definition py_sleep_inverse :: "int \<Rightarrow> py_error + unit" where
  "py_sleep_inverse n =
     (case py_float n of
        Inl err \<Rightarrow> Inl err
      | Inr x \<Rightarrow>
          if mant x = 0 then Inl ZeroDivisionError
          else if mant x < 0 then Inl ValueError
          else Inr ())"

subsection \<open>\<open>collections.deque\<close> with \<open>maxlen\<close>\<close>

record 'a deque =
  maxlen :: nat
  items :: "'a list"

text \<open>
  \<open>deque(maxlen=n)\<close>: \<open>n\<close> must fit a C \<open>ssize_t\<close> and must not be negative.
\<close>

definition deque_new :: "int \<Rightarrow> py_error + 'a deque" where
  "deque_new n =
     (if n < - (2 ^ 63) \<or> 2 ^ 63 - 1 < n then Inl OverflowError
      else if n < 0 then Inl ValueError
      else Inr \<lparr>maxlen = nat n, items = []\<rparr>)"

text \<open>\<open>append\<close> adds on the right, then drops the leftmost item if the deque is over its bound.\<close>

definition deque_append :: "'a deque \<Rightarrow> 'a \<Rightarrow> 'a deque" where
  "deque_append d x =
     (let xs = items d @ [x]
      in d\<lparr>items := (if maxlen d < length xs then tl xs else xs)\<rparr>)"

definition deque_clear :: "'a deque \<Rightarrow> 'a deque" where
  "deque_clear d = d\<lparr>items := []\<rparr>"

section \<open>Module state\<close>

text \<open>
  \<open>CLIP_BITRATE\<close> holds either a string (\<open>"auto"\<close> by default) or a number.
\<close>

datatype bitrate = Str string | Num int

text \<open>
  The module's globals that the clip pipeline reads, as \<open>load_config\<close> leaves them, and
  the lines printed so far. \<open>CLIP_FPS\<close>, \<open>CLIP_CRF\<close>, \<open>CLIP_DURATION_SECONDS\<close> and the two
  components of \<open>CLIP_SIZE\<close> are Python ints.
\<close>

record state =
  CLIP_DIR :: string
  CLIP_FPS :: int
  CLIP_BITRATE :: bitrate
  CLIP_SIZE :: "int \<times> int"
  CLIP_CODEC :: string
  CLIP_FORMAT :: string
  CLIP_CRF :: int
  CLIP_DURATION_SECONDS :: int
  stdout :: "string list"

definition py_print :: "string \<Rightarrow> state \<Rightarrow> state" where
  "py_print line s = s\<lparr>stdout := stdout s @ [line]\<rparr>"

definition log_msg :: "string \<Rightarrow> state \<Rightarrow> state" where
  "log_msg message s = py_print message s"

text \<open>
  The encoding backend's capability sets (\<open>av.codecs_available\<close>, \<open>av.formats_available\<close>);
  they belong to the library, so they are a parameter.
\<close>

record backend =
  SUPPORTED_CODECS :: "string set"
  SUPPORTED_FORMATS :: "string set"

definition AUTO_BITRATES :: "(string \<times> int) list" where
  "AUTO_BITRATES =
     [(''3840x2160'', 30 * 1000000),
      (''3440x1440'', 25 * 1000000),
      (''2560x1440'', 20 * 1000000),
      (''2560x1080'', 15 * 1000000),
      (''1920x1080'', 10 * 1000000),
      (''1280x720'', 5 * 1000000)]"

text \<open>The key \<open>f"{CLIP_SIZE[0]}x{CLIP_SIZE[1]}"\<close>.\<close>

definition size_key :: "int \<times> int \<Rightarrow> string" where
  "size_key sz = str_int (fst sz) @ ''x'' @ str_int (snd sz)"

section \<open>\<open>clip_compatibility\<close>\<close>

text \<open>The two closing lines of the \<open>"auto"\<close> branch: the report, then \<open>return True\<close>.\<close>

definition report_auto :: "int \<Rightarrow> state \<Rightarrow> (py_error + bool) \<times> state" where
  "report_auto b s =
     (Inr True, py_print (''Auto bitrate set to '' @ str_int (b div 1000000) @ '' Mbps'') s)"

text \<open>
  The result is the value returned or the exception raised, with the state left behind.
  The assignment of the table value to \<open>CLIP_BITRATE\<close> precedes the scaling, so it
  stays in place if the scaling raises.
\<close>

definition clip_compatibility :: "backend \<Rightarrow> state \<Rightarrow> (py_error + bool) \<times> state" where
  "clip_compatibility av s =
     (if CLIP_CODEC s \<notin> SUPPORTED_CODECS av then
        (Inr False, py_print (''Error: '' @ CLIP_CODEC s @ '' codec is not supported'') s)
      else if CLIP_FORMAT s \<notin> SUPPORTED_FORMATS av then
        (Inr False, py_print (''Error: '' @ CLIP_FORMAT s @ '' format is not supported'') s)
      else if CLIP_BITRATE s = Str ''auto'' then
        (case map_of AUTO_BITRATES (size_key (CLIP_SIZE s)) of
           None \<Rightarrow> (Inl KeyError, s)
         | Some b \<Rightarrow>
             let s1 = s\<lparr>CLIP_BITRATE := Num b\<rparr>
             in if 30 < CLIP_FPS s1 then
                  let s2 = py_print ''clip fps higher than 30, adjusting bitrate.'' s1
                  in (case py_truediv (CLIP_FPS s2) 30 of
                        Inl err \<Rightarrow> (Inl err, s2)
                      | Inr multiplier \<Rightarrow>
                          (case py_mul_int_float b multiplier of
                             Inl err \<Rightarrow> (Inl err, s2)
                           | Inr product \<Rightarrow>
                               (case py_int product of
                                  Inl err \<Rightarrow> (Inl err, s2)
                                | Inr b' \<Rightarrow> report_auto b' (s2\<lparr>CLIP_BITRATE := Num b'\<rparr>))))
                else report_auto b s1)
      else (Inr True, s))"

section \<open>\<open>save_clip\<close>\<close>

text \<open>
  The encoder and the container belong to the encoding library. The container is kept as
  what was written to it: the streams added, the packets muxed, in order, and whether it
  was closed. The encoder is a parameter: \<open>create\<close> builds a codec context from the
  settings given to it, \<open>encode\<close> takes the context and one frame and yields the packets
  the encoder releases at that call (none, one or several) with the context that follows.
\<close>

record stream_settings =
  codec_name :: string
  width :: int
  height :: int
  rate :: int
  pix_fmt :: string
  crf :: string
  bit_rate :: bitrate

record 'p container =
  streams :: "stream_settings list"
  packets :: "'p list"
  closed :: bool

record ('f, 'p, 'c) encoder =
  create :: "stream_settings \<Rightarrow> 'c"
  encode :: "'c \<Rightarrow> 'f \<Rightarrow> 'p list \<times> 'c"

definition clip_stream_settings :: "state \<Rightarrow> stream_settings" where
  "clip_stream_settings s =
     \<lparr>codec_name = CLIP_CODEC s,
      width = fst (CLIP_SIZE s),
      height = snd (CLIP_SIZE s),
      rate = CLIP_FPS s,
      pix_fmt = ''yuv444p'',
      crf = str_int (CLIP_CRF s),
      bit_rate = CLIP_BITRATE s\<rparr>"

definition mux :: "'p container \<Rightarrow> 'p \<Rightarrow> 'p container" where
  "mux output packet = output\<lparr>packets := packets output @ [packet]\<rparr>"

text \<open>
  One pass of the body of \<open>for frame in video_buffer\<close>: the frame is encoded and every
  packet returned is muxed.
\<close>

definition encode_frame ::
  "('f, 'p, 'c) encoder \<Rightarrow> 'p container \<times> 'c \<Rightarrow> 'f \<Rightarrow> 'p container \<times> 'c" where
  "encode_frame enc oc frame =
     (let (pkts, codec_context) = encode enc (snd oc) frame
      in (foldl mux (fst oc) pkts, codec_context))"

text \<open>
  \<open>save_clip\<close> takes the frames of the buffer, oldest first, the entries of
  \<open>os.listdir(CLIP_DIR)\<close> and the files by path; it returns the state and the files it
  leaves. The calls into the library are taken to succeed. The second assignment of the
  bit rate under \<open>if CLIP_BITRATE\<close> repeats the first and changes nothing. After the loop
  the code closes the container and makes no further call to the encoder.
\<close>

definition save_clip ::
  "('f, 'p, 'c) encoder \<Rightarrow> string list \<Rightarrow> state \<Rightarrow> (string \<rightharpoonup> 'p container) \<Rightarrow> 'f list
     \<Rightarrow> state \<times> (string \<rightharpoonup> 'p container)" where
  "save_clip enc listdir s files video_buffer =
     (if length video_buffer = 0 then (py_print ''Error: No frames to save'' s, files)
      else
        let s1 = log_msg ''Saving clip'' s;
            clip_num = length listdir;
            filename = CLIP_DIR s1 @ ''clip_'' @ str_nat clip_num @ ''.'' @ CLIP_FORMAT s1;
            s2 = log_msg (''Saving clip as '' @ filename) s1;
            codec_context = create enc (clip_stream_settings s2);
            output = \<lparr>streams = [clip_stream_settings s2], packets = [], closed = False\<rparr>;
            s3 = log_msg (''Encoding clip. Writing '' @ str_nat (length video_buffer)
                          @ '' frames to file...'') s2;
            (output', codec_context') = foldl (encode_frame enc) (output, codec_context) video_buffer;
            s4 = log_msg (''Clip saved as '' @ filename) s3
        in (s4, files(filename \<mapsto> output'\<lparr>closed := True\<rparr>)))"

section \<open>\<open>start_recording\<close>\<close>

text \<open>
  What one pass of the loop meets from outside: the screenshot (\<open>None\<close> when the capture
  raises) and what \<open>queue.get_nowait()\<close> finds (\<open>None\<close> when the queue is empty and
  \<open>queue.Empty\<close> is raised, which the \<open>except\<close> clause swallows).
\<close>

record 'f tick =
  shot :: "'f option"
  command :: "string option"

text \<open>
  The thread's calls on \<open>buffer_queue\<close>: \<open>put\<close> with the frames the deque holds at that
  moment, and \<open>join\<close>, which returns once the receiver has called \<open>task_done\<close>. The
  receiver in \<open>main\<close> runs \<open>save_clip\<close> on the deque between the two, while this thread
  waits in \<open>join\<close>, so it reads the frames recorded with \<open>Put\<close>.
\<close>

datatype 'f queue_call = Put "'f list" | Join

record 'f recorder =
  video_buffer :: "'f deque"
  buffer_queue :: "'f queue_call list"

datatype status = Running | Returned | Raised py_error

text \<open>
  One pass of \<open>while True\<close>. \<open>Running\<close> means that the pass reached its end and the loop
  goes round again.
\<close>

definition loop_pass :: "int \<Rightarrow> 'f recorder \<Rightarrow> 'f tick \<Rightarrow> status \<times> 'f recorder" where
  "loop_pass fps r t =
     (case shot t of
        None \<Rightarrow> (Raised ScreenshotError, r)
      | Some screenshot \<Rightarrow>
          let r1 = r\<lparr>video_buffer := deque_append (video_buffer r) screenshot\<rparr>;
              after_try =
                (case command t of
                   None \<Rightarrow> Some r1
                 | Some c \<Rightarrow>
                     if c = ''save'' then
                       Some (r1\<lparr>buffer_queue := buffer_queue r1 @ [Put (items (video_buffer r1)), Join],
                                video_buffer := deque_clear (video_buffer r1)\<rparr>)
                     else None)
          in (case after_try of
                None \<Rightarrow> (Returned, r1)
              | Some r2 \<Rightarrow>
                  (case py_sleep_inverse fps of
                     Inl err \<Rightarrow> (Raised err, r2)
                   | Inr _ \<Rightarrow> (Running, r2))))"

text \<open>
  The loop over the passes that the list describes. It has no exit of its own: when the
  list is used up the thread is still in the loop, and the status is \<open>Running\<close>.
\<close>

fun recording_loop :: "int \<Rightarrow> 'f recorder \<Rightarrow> 'f tick list \<Rightarrow> status \<times> 'f recorder" where
  "recording_loop fps r [] = (Running, r)"
| "recording_loop fps r (t # ts) =
     (case loop_pass fps r t of
        (Running, r') \<Rightarrow> recording_loop fps r' ts
      | (Returned, r') \<Rightarrow> (Returned, r')
      | (Raised err, r') \<Rightarrow> (Raised err, r'))"

text \<open>
  \<open>start_recording\<close> returns how the thread stands after the given passes, the module
  state, and the recorder if the deque was ever created.
\<close>

definition start_recording ::
  "backend \<Rightarrow> state \<Rightarrow> 'f tick list \<Rightarrow> status \<times> state \<times> 'f recorder option" where
  "start_recording av s ts =
     (case clip_compatibility av s of
        (Inl err, s') \<Rightarrow> (Raised err, s', None)
      | (Inr compatible, s') \<Rightarrow>
          if \<not> compatible then (Returned, s', None)
          else
            (case deque_new (CLIP_DURATION_SECONDS s' * CLIP_FPS s') of
               Inl err \<Rightarrow> (Raised err, s', None)
             | Inr dq \<Rightarrow>
                 let s'' = log_msg ''Starting recording loop'' s';
                     (st, r) = recording_loop (CLIP_FPS s'') \<lparr>video_buffer = dq, buffer_queue = []\<rparr> ts
                 in (st, s'', Some r)))"

section \<open>Invariants of the recording loop\<close>

text \<open>
  The deque is within its bound; every buffer put on the queue is within the bound \<open>n\<close>
  and, when \<open>n\<close> is at least one, not empty.
\<close>

definition within_bound :: "'f recorder \<Rightarrow> bool" where
  "within_bound r = (length (items (video_buffer r)) \<le> maxlen (video_buffer r))"

definition puts_ok :: "nat \<Rightarrow> 'f queue_call list \<Rightarrow> bool" where
  "puts_ok n q = (\<forall>b. Put b \<in> set q \<longrightarrow> length b \<le> n \<and> (1 \<le> n \<longrightarrow> b \<noteq> []))"

section \<open>What an encoder releases\<close>

text \<open>
  The packets that an encoder releases, in order, when it is given the frames one call
  after the other from the context \<open>c\<close> and is not called again after the last frame.
\<close>

fun encoder_output :: "('f, 'p, 'c) encoder \<Rightarrow> 'c \<Rightarrow> 'f list \<Rightarrow> 'p list" where
  "encoder_output enc c [] = []"
| "encoder_output enc c (frame # frames) =
     fst (encode enc c frame) @ encoder_output enc (snd (encode enc c frame)) frames"

section \<open>What a call leaves of the settings\<close>

text \<open>
  \<open>other_settings_kept s t\<close>: state \<open>t\<close> has the settings of \<open>s\<close>, the bit rate apart.
  \<open>bitrate_kept_or_resolved s t\<close>: the bit rate of \<open>t\<close> is that of \<open>s\<close>, or \<open>s\<close> had
  \<open>"auto"\<close> and \<open>t\<close> has a number.
\<close>

definition other_settings_kept :: "state \<Rightarrow> state \<Rightarrow> bool" where
  "other_settings_kept s t =
     (CLIP_CODEC t = CLIP_CODEC s \<and> CLIP_FORMAT t = CLIP_FORMAT s \<and> CLIP_SIZE t = CLIP_SIZE s \<and>
      CLIP_FPS t = CLIP_FPS s \<and> CLIP_CRF t = CLIP_CRF s \<and>
      CLIP_DURATION_SECONDS t = CLIP_DURATION_SECONDS s \<and> CLIP_DIR t = CLIP_DIR s)"

definition bitrate_kept_or_resolved :: "state \<Rightarrow> state \<Rightarrow> bool" where
  "bitrate_kept_or_resolved s t =
     (CLIP_BITRATE t = CLIP_BITRATE s \<or>
      (CLIP_BITRATE s = Str ''auto'' \<and> (\<exists>b. CLIP_BITRATE t = Num b)))"

section \<open>Example inputs\<close>

text \<open>
  The module's defaults (lines 42 to 56 of \<open>image.py\<close>) on a 1920x1080 screen, with
  nothing printed yet, and a backend that knows two codecs and two formats.
\<close>

definition default_state :: state where
  "default_state =
     \<lparr>CLIP_DIR = ''./clips/'', CLIP_FPS = 30, CLIP_BITRATE = Str ''auto'',
      CLIP_SIZE = (1920, 1080), CLIP_CODEC = ''h264'', CLIP_FORMAT = ''mp4'', CLIP_CRF = 18,
      CLIP_DURATION_SECONDS = 10, stdout = []\<rparr>"

definition example_backend :: backend where
  "example_backend =
     \<lparr>SUPPORTED_CODECS = {''h264'', ''mpeg4''}, SUPPORTED_FORMATS = {''mp4'', ''avi''}\<rparr>"

text \<open>A pass that captures a frame and finds the command queue empty.\<close>

definition capture :: "'f \<Rightarrow> 'f tick" where
  "capture f = \<lparr>shot = Some f, command = None\<rparr>"

text \<open>
  Two encoders over frames and packets that are numbers. The first releases the packet of
  a frame at once. The second holds each frame back until the next one arrives, as an
  encoder with one frame of delay does; what it still holds comes out only on a flush.
\<close>

definition direct_encoder :: "(nat, nat, unit) encoder" where
  "direct_encoder = \<lparr>create = (\<lambda>_. ()), encode = (\<lambda>c f. ([f], c))\<rparr>"

definition delaying_encoder :: "(nat, nat, nat option) encoder" where
  "delaying_encoder =
     \<lparr>create = (\<lambda>_. None),
      encode = (\<lambda>held f. (case held of None \<Rightarrow> [] | Some g \<Rightarrow> [g], Some f))\<rparr>"

section \<open>Evaluation of the examples\<close>

lemmas float_eval =
  py_truediv_def py_float_def py_mul_int_float_def py_int_def py_sleep_inverse_def
  float_mul_def signed_or_raise_def signed_or_inf_def round_scaled_def round_ratio_def
  round_at_def nearest_even_div_def tie_break_def ilog2_ratio_def bit_length.simps
  overflows_def dneg_def

lemmas text_eval = size_key_def str_int_def str_nat.simps

lemma sleep_at_30: "py_sleep_inverse 30 = Inr ()"
  by (simp add: float_eval)

lemma sleep_at_10: "py_sleep_inverse 10 = Inr ()"
  by (simp add: float_eval)



lemma default_key: "map_of AUTO_BITRATES (size_key (1920, 1080)) = Some 10000000"
  by (simp add: AUTO_BITRATES_def text_eval)

lemma default_compatible:
  "clip_compatibility example_backend default_state =
     (Inr True, default_state\<lparr>CLIP_BITRATE := Num 10000000,
                              stdout := [''Auto bitrate set to 10 Mbps'']\<rparr>)"
  by (simp add: clip_compatibility_def example_backend_def default_state_def AUTO_BITRATES_def
        report_auto_def py_print_def text_eval Let_def)

section \<open>\<open>clip_compatibility\<close>\<close>

text \<open>The branches of \<open>clip_compatibility\<close>, one lemma each.\<close>

lemma clip_compatibility_bad_codec:
  "CLIP_CODEC s \<notin> SUPPORTED_CODECS av \<Longrightarrow>
   clip_compatibility av s =
     (Inr False, py_print (''Error: '' @ CLIP_CODEC s @ '' codec is not supported'') s)"
  by (simp add: clip_compatibility_def)

lemma clip_compatibility_bad_format:
  "CLIP_CODEC s \<in> SUPPORTED_CODECS av \<Longrightarrow> CLIP_FORMAT s \<notin> SUPPORTED_FORMATS av \<Longrightarrow>
   clip_compatibility av s =
     (Inr False, py_print (''Error: '' @ CLIP_FORMAT s @ '' format is not supported'') s)"
  by (simp add: clip_compatibility_def)


lemma clip_compatibility_base:
  "CLIP_CODEC s \<in> SUPPORTED_CODECS av \<Longrightarrow> CLIP_FORMAT s \<in> SUPPORTED_FORMATS av \<Longrightarrow>
   CLIP_BITRATE s = Str ''auto'' \<Longrightarrow> map_of AUTO_BITRATES (size_key (CLIP_SIZE s)) = Some b \<Longrightarrow>
   CLIP_FPS s \<le> 30 \<Longrightarrow>
   clip_compatibility av s = report_auto b (s\<lparr>CLIP_BITRATE := Num b\<rparr>)"
  by (simp add: clip_compatibility_def)

lemma clip_compatibility_scaled:
  "CLIP_CODEC s \<in> SUPPORTED_CODECS av \<Longrightarrow> CLIP_FORMAT s \<in> SUPPORTED_FORMATS av \<Longrightarrow>
   CLIP_BITRATE s = Str ''auto'' \<Longrightarrow> map_of AUTO_BITRATES (size_key (CLIP_SIZE s)) = Some b \<Longrightarrow>
   30 < CLIP_FPS s \<Longrightarrow> py_truediv (CLIP_FPS s) 30 = Inr multiplier \<Longrightarrow>
   py_mul_int_float b multiplier = Inr product \<Longrightarrow> py_int product = Inr b' \<Longrightarrow>
   clip_compatibility av s =
     report_auto b' (py_print ''clip fps higher than 30, adjusting bitrate.'' s\<lparr>CLIP_BITRATE := Num b'\<rparr>)"
  by (simp add: clip_compatibility_def py_print_def)

text \<open>What no call changes, and what a call changes only from \<open>"auto"\<close>.\<close>

lemma clip_compatibility_frame:
  assumes "clip_compatibility av s = (res, s')"
  shows "CLIP_DIR s' = CLIP_DIR s \<and> CLIP_FPS s' = CLIP_FPS s \<and> CLIP_SIZE s' = CLIP_SIZE s \<and>
         CLIP_CODEC s' = CLIP_CODEC s \<and> CLIP_FORMAT s' = CLIP_FORMAT s \<and>
         CLIP_CRF s' = CLIP_CRF s \<and> CLIP_DURATION_SECONDS s' = CLIP_DURATION_SECONDS s \<and>
         (CLIP_BITRATE s \<noteq> Str ''auto'' \<longrightarrow> CLIP_BITRATE s' = CLIP_BITRATE s)"
  using assms
  by (auto simp: clip_compatibility_def report_auto_def py_print_def Let_def
           split: if_splits option.splits sum.splits)

lemma clip_compatibility_True_again:
  assumes "clip_compatibility av s = (Inr True, s')"
  shows "clip_compatibility av s' = (Inr True, s')"
  using assms
  by (auto simp: clip_compatibility_def report_auto_def py_print_def Let_def
           split: if_splits option.splits sum.splits)

lemma clip_compatibility_True_resolved:
  assumes "clip_compatibility av s = (Inr True, s')" and "CLIP_BITRATE s = Str ''auto''"
  shows "\<exists>b. CLIP_BITRATE s' = Num b"
  using assms
  by (auto simp: clip_compatibility_def report_auto_def py_print_def Let_def
           split: if_splits option.splits sum.splits)

text \<open>
  Claim C9. A call that returns \<open>True\<close> leaves a state on which every later call returns
  \<open>True\<close> again and changes nothing: if the bit rate was \<open>"auto"\<close> it is a number
  afterwards, the \<open>"auto"\<close> branch is not entered a second time, and so the scaling for
  frame rates above 30 is applied once only.
\<close>

theorem clip_compatibility_idempotent:
  assumes "clip_compatibility av s = (Inr True, s')"
  shows "clip_compatibility av s' = (Inr True, s') \<and>
         (CLIP_BITRATE s = Str ''auto'' \<longrightarrow> (\<exists>b. CLIP_BITRATE s' = Num b)) \<and>
         (\<forall>n. ((\<lambda>t. snd (clip_compatibility av t)) ^^ n) s' = s' \<and>
              fst (clip_compatibility av (((\<lambda>t. snd (clip_compatibility av t)) ^^ n) s')) = Inr True)"
proof -
  have again: "clip_compatibility av s' = (Inr True, s')"
    using assms by (rule clip_compatibility_True_again)
  have resolved: "CLIP_BITRATE s = Str ''auto'' \<longrightarrow> (\<exists>b. CLIP_BITRATE s' = Num b)"
    using assms by (blast dest: clip_compatibility_True_resolved)
  have iter: "((\<lambda>t. snd (clip_compatibility av t)) ^^ n) s' = s'" for n
    by (induction n) (simp_all add: again)
  show ?thesis
    using again resolved by (simp add: iter)
qed

theorem clip_compatibility_idempotent_witness:
  "clip_compatibility example_backend default_state =
     (Inr True, default_state\<lparr>CLIP_BITRATE := Num 10000000,
                              stdout := [''Auto bitrate set to 10 Mbps'']\<rparr>) \<and>
   clip_compatibility example_backend
       (default_state\<lparr>CLIP_BITRATE := Num 10000000, stdout := [''Auto bitrate set to 10 Mbps'']\<rparr>) =
     (Inr True, default_state\<lparr>CLIP_BITRATE := Num 10000000,
                              stdout := [''Auto bitrate set to 10 Mbps'']\<rparr>)"
  using clip_compatibility_idempotent [OF default_compatible] default_compatible by simp

text \<open>
  Claim C7, as amended. If the codec and the format are supported, the bit rate is
  \<open>"auto"\<close> and the resolution string is not a key of the table, then \<open>clip_compatibility\<close>
  raises \<open>KeyError\<close>: it returns no verdict, prints nothing and leaves \<open>CLIP_BITRATE\<close> at
  \<open>"auto"\<close>.
\<close>

theorem unknown_resolution_raises:
  assumes "CLIP_CODEC s \<in> SUPPORTED_CODECS av" and "CLIP_FORMAT s \<in> SUPPORTED_FORMATS av"
    and "CLIP_BITRATE s = Str ''auto''"
    and "map_of AUTO_BITRATES (size_key (CLIP_SIZE s)) = None"
  shows "clip_compatibility av s = (Inl KeyError, s)"
  using assms by (simp add: clip_compatibility_def)

theorem unknown_resolution_raises_witness:
  "CLIP_CODEC (default_state\<lparr>CLIP_SIZE := (800, 600)\<rparr>) \<in> SUPPORTED_CODECS example_backend \<and>
   CLIP_FORMAT (default_state\<lparr>CLIP_SIZE := (800, 600)\<rparr>) \<in> SUPPORTED_FORMATS example_backend \<and>
   CLIP_BITRATE (default_state\<lparr>CLIP_SIZE := (800, 600)\<rparr>) = Str ''auto'' \<and>
   map_of AUTO_BITRATES (size_key (CLIP_SIZE (default_state\<lparr>CLIP_SIZE := (800, 600)\<rparr>))) = None \<and>
   clip_compatibility example_backend (default_state\<lparr>CLIP_SIZE := (800, 600)\<rparr>) =
     (Inl KeyError, default_state\<lparr>CLIP_SIZE := (800, 600)\<rparr>)"
proof -
  have c: "CLIP_CODEC (default_state\<lparr>CLIP_SIZE := (800, 600)\<rparr>) \<in> SUPPORTED_CODECS example_backend"
    by (simp add: default_state_def example_backend_def)
  have f: "CLIP_FORMAT (default_state\<lparr>CLIP_SIZE := (800, 600)\<rparr>) \<in> SUPPORTED_FORMATS example_backend"
    by (simp add: default_state_def example_backend_def)
  have a: "CLIP_BITRATE (default_state\<lparr>CLIP_SIZE := (800, 600)\<rparr>) = Str ''auto''"
    by (simp add: default_state_def)
  have k: "map_of AUTO_BITRATES (size_key (CLIP_SIZE (default_state\<lparr>CLIP_SIZE := (800, 600)\<rparr>))) = None"
    by (simp add: AUTO_BITRATES_def text_eval)
  show ?thesis
    using unknown_resolution_raises [OF c f a k] c f a k by simp
qed

text \<open>
  The claim as it was stated fails when the codec is not supported: the bit rate is
  \<open>"auto"\<close> and 800x600 is not in the table, yet the call returns \<open>False\<close> and prints
  the codec error, because the codec is tested first.
\<close>

theorem unknown_resolution_unsupported_codec:
  "CLIP_BITRATE (default_state\<lparr>CLIP_CODEC := ''made_up_codec'', CLIP_SIZE := (800, 600)\<rparr>) = Str ''auto'' \<and>
   map_of AUTO_BITRATES
     (size_key (CLIP_SIZE (default_state\<lparr>CLIP_CODEC := ''made_up_codec'', CLIP_SIZE := (800, 600)\<rparr>))) = None \<and>
   clip_compatibility example_backend
       (default_state\<lparr>CLIP_CODEC := ''made_up_codec'', CLIP_SIZE := (800, 600)\<rparr>) =
     (Inr False, default_state\<lparr>CLIP_CODEC := ''made_up_codec'', CLIP_SIZE := (800, 600),
                               stdout := [''Error: made_up_codec codec is not supported'']\<rparr>)"
  by (simp add: clip_compatibility_def example_backend_def default_state_def AUTO_BITRATES_def
        text_eval py_print_def)

text \<open>
  Claim C5. If the codec or the format is not supported, \<open>clip_compatibility\<close> prints the
  matching error line and returns \<open>False\<close>, and \<open>start_recording\<close> returns at once whatever
  the passes offered to it: no deque is created, no frame is captured and nothing is put on
  the buffer queue, so the receiver never gets a buffer to pass to \<open>save_clip\<close>, the
  only place where an encoder or a file is made.
\<close>

theorem unsupported_settings_rejected:
  assumes "CLIP_CODEC s \<notin> SUPPORTED_CODECS av \<or> CLIP_FORMAT s \<notin> SUPPORTED_FORMATS av"
  shows "clip_compatibility av s =
           (Inr False,
            py_print (if CLIP_CODEC s \<notin> SUPPORTED_CODECS av
                      then ''Error: '' @ CLIP_CODEC s @ '' codec is not supported''
                      else ''Error: '' @ CLIP_FORMAT s @ '' format is not supported'') s) \<and>
         (\<forall>ts :: 'f tick list.
            start_recording av s ts = (Returned, snd (clip_compatibility av s), None))"
proof (cases "CLIP_CODEC s \<in> SUPPORTED_CODECS av")
  case False
  then show ?thesis
    by (simp add: clip_compatibility_bad_codec start_recording_def)
next
  case True
  with assms have "CLIP_FORMAT s \<notin> SUPPORTED_FORMATS av" by simp
  with True show ?thesis
    by (simp add: clip_compatibility_bad_format start_recording_def)
qed

theorem unsupported_settings_rejected_witness:
  "CLIP_CODEC (default_state\<lparr>CLIP_CODEC := ''made_up_codec''\<rparr>) \<notin> SUPPORTED_CODECS example_backend \<and>
   start_recording example_backend (default_state\<lparr>CLIP_CODEC := ''made_up_codec''\<rparr>)
       [capture (1 :: nat), \<lparr>shot = Some 2, command = Some ''save''\<rparr>] =
     (Returned,
      default_state\<lparr>CLIP_CODEC := ''made_up_codec'',
                     stdout := [''Error: made_up_codec codec is not supported'']\<rparr>,
      None)"
proof -
  have c: "CLIP_CODEC (default_state\<lparr>CLIP_CODEC := ''made_up_codec''\<rparr>) \<notin> SUPPORTED_CODECS example_backend"
    by (simp add: default_state_def example_backend_def)
  then have h: "CLIP_CODEC (default_state\<lparr>CLIP_CODEC := ''made_up_codec''\<rparr>) \<notin> SUPPORTED_CODECS example_backend \<or>
           CLIP_FORMAT (default_state\<lparr>CLIP_CODEC := ''made_up_codec''\<rparr>) \<notin> SUPPORTED_FORMATS example_backend"
    by simp
  have v: "snd (clip_compatibility example_backend (default_state\<lparr>CLIP_CODEC := ''made_up_codec''\<rparr>)) =
           default_state\<lparr>CLIP_CODEC := ''made_up_codec'',
                          stdout := [''Error: made_up_codec codec is not supported'']\<rparr>"
    by (simp add: clip_compatibility_def default_state_def example_backend_def py_print_def)
  show ?thesis
    using unsupported_settings_rejected [where 'f = nat, OF h] c by (simp add: v)
qed

section \<open>The float primitives\<close>

lemma bit_length_upper: "n < 2 ^ bit_length n"
proof (induction n rule: bit_length.induct)
  case (1 n)
  show ?case
  proof (cases "n = 0")
    case True
    then show ?thesis by (simp add: bit_length.simps)
  next
    case False
    with 1 have "n div 2 < 2 ^ bit_length (n div 2)" by simp
    then have "n < 2 * 2 ^ bit_length (n div 2)" by linarith
    with False show ?thesis by (subst bit_length.simps) simp
  qed
qed

lemma bit_length_lower: "0 < n \<Longrightarrow> 2 ^ (bit_length n - 1) \<le> n"
proof (induction n rule: bit_length.induct)
  case (1 n)
  then have pos: "n \<noteq> 0" by simp
  have unfold: "bit_length n = Suc (bit_length (n div 2))"
    using pos by (subst bit_length.simps) simp
  show ?case
  proof (cases "n div 2 = 0")
    case True
    then have "bit_length (n div 2) = 0" by (simp add: bit_length.simps)
    with unfold 1 show ?thesis by simp
  next
    case False
    then have "0 < n div 2" by simp
    with 1 pos have ih: "2 ^ (bit_length (n div 2) - 1) \<le> n div 2" by simp
    have "0 < bit_length (n div 2)"
      using False by (subst bit_length.simps) simp
    then have "(2::nat) ^ bit_length (n div 2) = 2 * 2 ^ (bit_length (n div 2) - 1)"
      by (cases "bit_length (n div 2)") simp_all
    with ih have "2 ^ bit_length (n div 2) \<le> n" by linarith
    with unfold show ?thesis by simp
  qed
qed

lemma bit_length_pos: "0 < n \<Longrightarrow> 0 < bit_length n"
  by (subst bit_length.simps) simp

lemma tie_break_range: "f \<le> tie_break f r den \<and> tie_break f r den \<le> f + 1"
  by (simp add: tie_break_def)

lemma tie_break_exact: "0 < den \<Longrightarrow> tie_break f 0 den = f"
  by (simp add: tie_break_def)

text \<open>The rounded quotient is within half a unit of the exact one.\<close>

lemma nearest_even_div_near:
  assumes "0 < den"
  shows "2 * \<bar>nearest_even_div num den * den - num\<bar> \<le> den"
proof -
  define f where "f = num div den"
  define r where "r = num mod den"
  have e: "num = f * den + r" by (simp add: f_def r_def)
  have r: "0 \<le> r" "r < den" using assms by (simp_all add: r_def)
  have "2 * \<bar>tie_break f r den * den - num\<bar> \<le> den"
    using r unfolding e tie_break_def by (auto simp: algebra_simps)
  then show ?thesis by (simp add: nearest_even_div_def f_def r_def)
qed




lemma py_sleep_inverse_zero: "py_sleep_inverse 0 = Inl ZeroDivisionError"
  by (simp add: float_eval)

section \<open>The ring buffer\<close>

lemma deque_append_maxlen [simp]: "maxlen (deque_append d x) = maxlen d"
  by (simp add: deque_append_def Let_def)

lemma deque_append_items:
  "items (deque_append d x) =
     (if length (items d) < maxlen d then items d @ [x] else tl (items d @ [x]))"
  by (auto simp: deque_append_def Let_def)

lemma deque_append_length:
  "length (items d) \<le> maxlen d \<Longrightarrow> length (items (deque_append d x)) \<le> maxlen d"
  by (auto simp: deque_append_items)

lemma drop_one_tl: "drop (Suc 0) ys = tl ys"
  by (cases ys) simp_all

lemma deque_append_full:
  "length (items d) = maxlen d \<Longrightarrow> items (deque_append d x) = drop 1 (items d @ [x])"
  by (simp add: deque_append_items drop_one_tl del: drop_append)

lemma deque_append_full_length:
  "length (items d) = maxlen d \<Longrightarrow> length (items (deque_append d x)) = maxlen d"
  by (cases "items d") (auto simp: deque_append_items)

lemma deque_append_nonempty: "1 \<le> maxlen d \<Longrightarrow> items (deque_append d x) \<noteq> []"
  by (cases "items d") (auto simp: deque_append_items)

text \<open>
  The window: if the deque holds the last \<open>maxlen\<close> of the frames \<open>ys\<close> seen so far, then
  after one more frame it holds the last \<open>maxlen\<close> of \<open>ys @ [x]\<close>.
\<close>

lemma deque_append_window:
  assumes "items d = drop (length ys - maxlen d) ys"
  shows "items (deque_append d x) = drop (length (ys @ [x]) - maxlen d) (ys @ [x])"
proof (cases "length ys < maxlen d")
  case True
  with assms show ?thesis by (simp add: deque_append_items)
next
  case False
  then have len: "length (items d) = maxlen d" using assms by simp
  have "items (deque_append d x) = drop 1 (drop (length ys - maxlen d) ys @ [x])"
    using len assms by (simp add: deque_append_full)
  also have "\<dots> = drop 1 (drop (length ys - maxlen d) (ys @ [x]))"
    using False by simp
  also have "\<dots> = drop (length (ys @ [x]) - maxlen d) (ys @ [x])"
    using False by (simp add: Suc_diff_le)
  finally show ?thesis .
qed

lemma foldl_deque_append_window:
  "items d = drop (length ys - maxlen d) ys \<Longrightarrow>
   items (foldl deque_append d fs) = drop (length (ys @ fs) - maxlen d) (ys @ fs) \<and>
   maxlen (foldl deque_append d fs) = maxlen d"
proof (induction fs arbitrary: d ys)
  case Nil
  then show ?case by simp
next
  case (Cons f fs)
  have "items (deque_append d f) = drop (length (ys @ [f]) - maxlen (deque_append d f)) (ys @ [f])"
    using Cons.prems by (simp add: deque_append_window)
  from Cons.IH [OF this] show ?case by simp
qed

section \<open>The recording loop\<close>



lemma loop_pass_empty:
  "py_sleep_inverse fps = Inr () \<Longrightarrow>
   loop_pass fps r \<lparr>shot = Some f, command = None\<rparr> =
     (Running, r\<lparr>video_buffer := deque_append (video_buffer r) f\<rparr>)"
  by (simp add: loop_pass_def Let_def)

lemma loop_pass_sleep_raises:
  "py_sleep_inverse fps = Inl err \<Longrightarrow>
   loop_pass fps r \<lparr>shot = Some f, command = None\<rparr> =
     (Raised err, r\<lparr>video_buffer := deque_append (video_buffer r) f\<rparr>)"
  by (simp add: loop_pass_def Let_def)


lemma recording_loop_captures:
  "py_sleep_inverse fps = Inr () \<Longrightarrow>
   recording_loop fps r (map capture fs) =
     (Running, r\<lparr>video_buffer := foldl deque_append (video_buffer r) fs\<rparr>)"
  by (induction fs arbitrary: r) (simp_all add: capture_def loop_pass_empty)

lemma recording_loop_captures_Running:
  assumes "recording_loop fps r (map capture fs) = (Running, r')"
  shows "r' = r\<lparr>video_buffer := foldl deque_append (video_buffer r) fs\<rparr>"
proof (cases fs)
  case Nil
  with assms show ?thesis by simp
next
  case (Cons f fs')
  show ?thesis
  proof (cases "py_sleep_inverse fps")
    case (Inl err)
    with assms Cons show ?thesis
      by (simp add: capture_def loop_pass_sleep_raises)
  next
    case (Inr u)
    then have "py_sleep_inverse fps = Inr ()" by simp
    from recording_loop_captures [OF this, of r fs] assms show ?thesis by simp
  qed
qed

text \<open>
  The invariant of a pass: the bound of the deque is kept, the deque stays within it, and
  a buffer that the pass puts on the queue is within the bound and, when the bound is
  at least one, not empty.
\<close>

lemma loop_pass_invariant:
  assumes "loop_pass fps r t = (st, r')" and "within_bound r"
    and "puts_ok (maxlen (video_buffer r)) (buffer_queue r)"
  shows "maxlen (video_buffer r') = maxlen (video_buffer r) \<and> within_bound r' \<and>
         puts_ok (maxlen (video_buffer r)) (buffer_queue r')"
proof (cases "shot t")
  case None
  with assms show ?thesis by (simp add: loop_pass_def)
next
  case (Some f)
  have a: "length (items (deque_append (video_buffer r) f)) \<le> maxlen (video_buffer r)"
    using assms(2) by (simp add: within_bound_def deque_append_length)
  have b: "1 \<le> maxlen (video_buffer r) \<longrightarrow> items (deque_append (video_buffer r) f) \<noteq> []"
    by (simp add: deque_append_nonempty)
  from assms(1) Some a b assms(3) show ?thesis
    by (auto simp: loop_pass_def Let_def within_bound_def puts_ok_def deque_clear_def
             split: option.splits if_splits sum.splits)
qed

lemma recording_loop_invariant:
  "recording_loop fps r ts = (st, r') \<Longrightarrow> within_bound r \<Longrightarrow>
   puts_ok (maxlen (video_buffer r)) (buffer_queue r) \<Longrightarrow>
   maxlen (video_buffer r') = maxlen (video_buffer r) \<and> within_bound r' \<and>
   puts_ok (maxlen (video_buffer r)) (buffer_queue r')"
proof (induction ts arbitrary: r)
  case Nil
  then show ?case by simp
next
  case (Cons t ts)
  obtain st1 r1 where p: "loop_pass fps r t = (st1, r1)" by (cases "loop_pass fps r t")
  note inv = loop_pass_invariant [OF p Cons.prems(2) Cons.prems(3)]
  show ?case
  proof (cases st1)
    case Running
    with Cons.prems(1) p have "recording_loop fps r1 ts = (st, r')" by simp
    from Cons.IH [OF this] inv show ?thesis by simp
  next
    case Returned
    with Cons.prems(1) p inv show ?thesis by auto
  next
    case (Raised err)
    with Cons.prems(1) p inv show ?thesis by auto
  qed
qed

text \<open>How \<open>start_recording\<close> comes to have a recorder.\<close>

lemma start_recording_Some:
  assumes "start_recording av s ts = (st, s', Some r)"
  shows "\<exists>s1 dq. clip_compatibility av s = (Inr True, s1) \<and>
           deque_new (CLIP_DURATION_SECONDS s1 * CLIP_FPS s1) = Inr dq \<and>
           s' = log_msg ''Starting recording loop'' s1 \<and>
           recording_loop (CLIP_FPS s1) \<lparr>video_buffer = dq, buffer_queue = []\<rparr> ts = (st, r)"
  using assms
  by (auto simp: start_recording_def Let_def log_msg_def py_print_def
           split: prod.splits sum.splits if_splits)

lemma start_recording_run:
  assumes "clip_compatibility av s = (Inr True, s1)"
    and "deque_new (CLIP_DURATION_SECONDS s1 * CLIP_FPS s1) = Inr dq"
    and "recording_loop (CLIP_FPS s1) \<lparr>video_buffer = dq, buffer_queue = []\<rparr> ts = (st, r)"
  shows "start_recording av s ts = (st, log_msg ''Starting recording loop'' s1, Some r)"
  using assms by (simp add: start_recording_def Let_def log_msg_def py_print_def)

lemma deque_new_Inr:
  "deque_new n = Inr dq \<Longrightarrow> 0 \<le> n \<and> maxlen dq = nat n \<and> items dq = []"
  by (auto simp: deque_new_def split: if_splits)

lemma start_recording_facts:
  assumes "start_recording av s ts = (st, s', Some r)"
  shows "\<exists>dq. deque_new (CLIP_DURATION_SECONDS s * CLIP_FPS s) = Inr dq \<and>
           recording_loop (CLIP_FPS s) \<lparr>video_buffer = dq, buffer_queue = []\<rparr> ts = (st, r)"
proof -
  from start_recording_Some [OF assms] obtain s1 dq where
    c: "clip_compatibility av s = (Inr True, s1)" and
    d: "deque_new (CLIP_DURATION_SECONDS s1 * CLIP_FPS s1) = Inr dq" and
    l: "recording_loop (CLIP_FPS s1) \<lparr>video_buffer = dq, buffer_queue = []\<rparr> ts = (st, r)"
    by blast
  from clip_compatibility_frame [OF c] d l show ?thesis by auto
qed

text \<open>
  Claim C1. Whenever \<open>start_recording\<close> has created its deque, the bound of the deque is
  \<open>N = CLIP_DURATION_SECONDS * CLIP_FPS\<close>; after any passes of the loop the deque holds at
  most \<open>N\<close> frames, and so does every buffer handed over; appending to a deque that holds
  \<open>N\<close> frames drops exactly the oldest one; and after \<open>k\<close> plain captures into the
  initially empty deque it holds the last \<open>N\<close> of the \<open>k\<close> frames in capture order (all
  of them while \<open>k \<le> N\<close>).
\<close>

theorem ring_buffer_bounded:
  assumes "start_recording av s ts = (st, s', Some r)"
  shows "0 \<le> CLIP_DURATION_SECONDS s * CLIP_FPS s \<and>
         maxlen (video_buffer r) = nat (CLIP_DURATION_SECONDS s * CLIP_FPS s) \<and>
         length (items (video_buffer r)) \<le> nat (CLIP_DURATION_SECONDS s * CLIP_FPS s) \<and>
         (\<forall>b. Put b \<in> set (buffer_queue r) \<longrightarrow>
              length b \<le> nat (CLIP_DURATION_SECONDS s * CLIP_FPS s)) \<and>
         (\<forall>x. length (items (video_buffer r)) = nat (CLIP_DURATION_SECONDS s * CLIP_FPS s) \<longrightarrow>
              items (deque_append (video_buffer r) x) = drop 1 (items (video_buffer r) @ [x]) \<and>
              length (items (deque_append (video_buffer r) x)) =
                nat (CLIP_DURATION_SECONDS s * CLIP_FPS s)) \<and>
         (\<forall>fs. ts = map capture fs \<and> st = Running \<longrightarrow>
              items (video_buffer r) =
                drop (length fs - nat (CLIP_DURATION_SECONDS s * CLIP_FPS s)) fs)"
proof -
  define N where "N = nat (CLIP_DURATION_SECONDS s * CLIP_FPS s)"
  from start_recording_facts [OF assms] obtain dq where
    d: "deque_new (CLIP_DURATION_SECONDS s * CLIP_FPS s) = Inr dq" and
    l: "recording_loop (CLIP_FPS s) \<lparr>video_buffer = dq, buffer_queue = []\<rparr> ts = (st, r)"
    by blast
  from deque_new_Inr [OF d] have
    n0: "0 \<le> CLIP_DURATION_SECONDS s * CLIP_FPS s" and m: "maxlen dq = N" and e: "items dq = []"
    by (simp_all add: N_def)
  have inv: "maxlen (video_buffer r) = N \<and> within_bound r \<and> puts_ok N (buffer_queue r)"
    using recording_loop_invariant [OF l] m e by (simp add: within_bound_def puts_ok_def)
  then have len: "length (items (video_buffer r)) \<le> N"
    by (simp add: within_bound_def)
  have puts: "\<forall>b. Put b \<in> set (buffer_queue r) \<longrightarrow> length b \<le> N"
    using inv by (simp add: puts_ok_def)
  have full: "\<forall>x. length (items (video_buffer r)) = N \<longrightarrow>
                items (deque_append (video_buffer r) x) = drop 1 (items (video_buffer r) @ [x]) \<and>
                length (items (deque_append (video_buffer r) x)) = N"
  proof (intro allI impI)
    fix x
    assume "length (items (video_buffer r)) = N"
    with inv have "length (items (video_buffer r)) = maxlen (video_buffer r)" by simp
    from deque_append_full [OF this] deque_append_full_length [OF this] inv
    show "items (deque_append (video_buffer r) x) = drop 1 (items (video_buffer r) @ [x]) \<and>
          length (items (deque_append (video_buffer r) x)) = N"
      by blast
  qed
  have window: "\<forall>fs. ts = map capture fs \<and> st = Running \<longrightarrow>
                  items (video_buffer r) = drop (length fs - N) fs"
  proof (intro allI impI)
    fix fs
    assume a: "ts = map capture fs \<and> st = Running"
    with l have "recording_loop (CLIP_FPS s) \<lparr>video_buffer = dq, buffer_queue = []\<rparr> (map capture fs)
                   = (Running, r)" by simp
    from recording_loop_captures_Running [OF this]
    have "video_buffer r = foldl deque_append dq fs" by simp
    moreover have "items dq = drop (length ([] :: 'a list) - maxlen dq) []" using e by simp
    from foldl_deque_append_window [OF this, of fs]
    have "items (foldl deque_append dq fs) = drop (length fs - N) fs" using m by simp
    ultimately show "items (video_buffer r) = drop (length fs - N) fs" by simp
  qed
  show ?thesis
    using n0 inv len puts full window unfolding N_def by blast
qed

lemma example_compatible:
  assumes "fps \<le> 30"
  shows "clip_compatibility example_backend
           (default_state\<lparr>CLIP_FPS := fps, CLIP_DURATION_SECONDS := d\<rparr>) =
         (Inr True, default_state\<lparr>CLIP_FPS := fps, CLIP_DURATION_SECONDS := d,
                                  CLIP_BITRATE := Num 10000000,
                                  stdout := [''Auto bitrate set to 10 Mbps'']\<rparr>)"
  using assms
  by (simp add: clip_compatibility_def example_backend_def default_state_def AUTO_BITRATES_def
        report_auto_def py_print_def text_eval Let_def)

lemma example_recording:
  assumes "fps \<le> 30"
    and "deque_new (d * fps) = Inr dq"
    and "recording_loop fps \<lparr>video_buffer = dq, buffer_queue = []\<rparr> ts = (st, r)"
  shows "start_recording example_backend
           (default_state\<lparr>CLIP_FPS := fps, CLIP_DURATION_SECONDS := d\<rparr>) ts =
         (st,
          default_state\<lparr>CLIP_FPS := fps, CLIP_DURATION_SECONDS := d,
                         CLIP_BITRATE := Num 10000000,
                         stdout := [''Auto bitrate set to 10 Mbps'', ''Starting recording loop'']\<rparr>,
          Some r)"
proof -
  note c = example_compatible [OF assms(1), of d]
  have "start_recording example_backend
           (default_state\<lparr>CLIP_FPS := fps, CLIP_DURATION_SECONDS := d\<rparr>) ts =
        (st, log_msg ''Starting recording loop''
               (default_state\<lparr>CLIP_FPS := fps, CLIP_DURATION_SECONDS := d,
                                  CLIP_BITRATE := Num 10000000,
                                  stdout := [''Auto bitrate set to 10 Mbps'']\<rparr>), Some r)"
    by (rule start_recording_run [OF c]) (use assms in \<open>simp_all add: default_state_def\<close>)
  then show ?thesis by (simp add: log_msg_def py_print_def default_state_def)
qed

theorem ring_buffer_bounded_witness:
  "start_recording example_backend
       (default_state\<lparr>CLIP_FPS := 10, CLIP_DURATION_SECONDS := 2\<rparr>)
       (map capture 
         [1, 2, 3, 4, 5, 6, 7, 8, 9, 10, 11, 12, 13, 14, 15, 16, 17, 18, 19, 20, 21, 22, 23, 24, 25 :: nat]) =
     (Running,
      default_state\<lparr>CLIP_FPS := 10, CLIP_DURATION_SECONDS := 2, CLIP_BITRATE := Num 10000000,
                     stdout := [''Auto bitrate set to 10 Mbps'', ''Starting recording loop'']\<rparr>,
      Some \<lparr>video_buffer = \<lparr>maxlen = 20, items = [6, 7, 8, 9, 10, 11, 12, 13, 14, 15, 16, 17, 18, 19, 20, 21, 22, 23, 24, 25 :: nat]\<rparr>, buffer_queue = []\<rparr>) \<and>
   nat (2 * 10) = 20 \<and>
   [6, 7, 8, 9, 10, 11, 12, 13, 14, 15, 16, 17, 18, 19, 20, 21, 22, 23, 24, 25 :: nat] = drop (length 
         [1, 2, 3, 4, 5, 6, 7, 8, 9, 10, 11, 12, 13, 14, 15, 16, 17, 18, 19, 20, 21, 22, 23, 24, 25 :: nat] - nat (2 * 10)) 
         [1, 2, 3, 4, 5, 6, 7, 8, 9, 10, 11, 12, 13, 14, 15, 16, 17, 18, 19, 20, 21, 22, 23, 24, 25 :: nat]"
proof -
  let ?S = "default_state\<lparr>CLIP_FPS := 10, CLIP_DURATION_SECONDS := 2\<rparr>"
  let ?F = "
         [1, 2, 3, 4, 5, 6, 7, 8, 9, 10, 11, 12, 13, 14, 15, 16, 17, 18, 19, 20, 21, 22, 23, 24, 25 :: nat]"
  let ?R = "\<lparr>video_buffer = \<lparr>maxlen = 20, items = [6, 7, 8, 9, 10, 11, 12, 13, 14, 15, 16, 17, 18, 19, 20, 21, 22, 23, 24, 25 :: nat]\<rparr>, buffer_queue = []\<rparr>"
  have dq: "deque_new (2 * 10) = Inr \<lparr>maxlen = 20, items = ([] :: nat list)\<rparr>"
    by (simp add: deque_new_def)
  have run: "recording_loop 10 \<lparr>video_buffer = \<lparr>maxlen = 20, items = []\<rparr>, buffer_queue = []\<rparr>
               (map capture ?F) = (Running, ?R)"
    by (subst recording_loop_captures [OF sleep_at_10]) (simp add: deque_append_def Let_def)
  have h: "start_recording example_backend ?S (map capture ?F) =
           (Running,
            default_state\<lparr>CLIP_FPS := 10, CLIP_DURATION_SECONDS := 2, CLIP_BITRATE := Num 10000000,
                           stdout := [''Auto bitrate set to 10 Mbps'', ''Starting recording loop'']\<rparr>,
            Some ?R)"
    by (rule example_recording [OF _ dq run]) simp
  have fields: "CLIP_DURATION_SECONDS ?S = 2" "CLIP_FPS ?S = 10"
    by (simp_all add: default_state_def)
  note t = ring_buffer_bounded [OF h]
  from t have "\<forall>fs. map capture ?F = map capture fs \<and> Running = Running \<longrightarrow>
                 items (video_buffer ?R) =
                   drop (length fs - nat (CLIP_DURATION_SECONDS ?S * CLIP_FPS ?S)) fs"
    by blast
  then have "items (video_buffer ?R) =
               drop (length ?F - nat (CLIP_DURATION_SECONDS ?S * CLIP_FPS ?S)) ?F"
    by blast
  then have w: "[6, 7, 8, 9, 10, 11, 12, 13, 14, 15, 16, 17, 18, 19, 20, 21, 22, 23, 24, 25 :: nat] = drop (length ?F - nat (2 * 10)) ?F"
    by (simp only: fields) simp
  from h w show ?thesis by simp
qed

section \<open>\<open>save_clip\<close>\<close>

lemma foldl_mux: "foldl mux out pkts = out\<lparr>packets := packets out @ pkts\<rparr>"
  by (induction pkts arbitrary: out) (simp_all add: mux_def)

lemma encode_frame_eq:
  "encode_frame enc (out, c) frame =
     (out\<lparr>packets := packets out @ fst (encode enc c frame)\<rparr>, snd (encode enc c frame))"
  by (simp add: encode_frame_def foldl_mux split: prod.splits)

lemma foldl_encode_frame:
  "fst (foldl (encode_frame enc) (out, c) frames) =
     out\<lparr>packets := packets out @ encoder_output enc c frames\<rparr>"
  by (induction frames arbitrary: out c) (simp_all add: encode_frame_eq)

text \<open>
  What \<open>save_clip\<close> does with a buffer that is not empty: four lines are logged, and one
  path is written, with one stream and the packets the encoder released during the loop.
\<close>

lemma save_clip_nonempty:
  assumes "frames \<noteq> []"
  shows "save_clip enc listdir s files frames =
    (s\<lparr>stdout := stdout s @
         [''Saving clip'',
          ''Saving clip as '' @ CLIP_DIR s @ ''clip_'' @ str_nat (length listdir) @ ''.'' @ CLIP_FORMAT s,
          ''Encoding clip. Writing '' @ str_nat (length frames) @ '' frames to file...'',
          ''Clip saved as '' @ CLIP_DIR s @ ''clip_'' @ str_nat (length listdir) @ ''.'' @ CLIP_FORMAT s]\<rparr>,
     files(CLIP_DIR s @ ''clip_'' @ str_nat (length listdir) @ ''.'' @ CLIP_FORMAT s \<mapsto>
       \<lparr>streams = [clip_stream_settings s],
        packets = encoder_output enc (create enc (clip_stream_settings s)) frames,
        closed = True\<rparr>))"
proof -
  have cs: "clip_stream_settings (s\<lparr>stdout := l\<rparr>) = clip_stream_settings s" for l
    by (simp add: clip_stream_settings_def)
  obtain out c where
    f: "foldl (encode_frame enc)
          (\<lparr>streams = [clip_stream_settings s], packets = [], closed = False\<rparr>,
           create enc (clip_stream_settings s)) frames = (out, c)"
    by (cases "foldl (encode_frame enc)
          (\<lparr>streams = [clip_stream_settings s], packets = [], closed = False\<rparr>,
           create enc (clip_stream_settings s)) frames")
  from foldl_encode_frame [of enc "\<lparr>streams = [clip_stream_settings s], packets = [], closed = False\<rparr>"
      "create enc (clip_stream_settings s)" frames] f
  have o: "out = \<lparr>streams = [clip_stream_settings s],
                      packets = encoder_output enc (create enc (clip_stream_settings s)) frames,
                      closed = False\<rparr>"
    by simp
  show ?thesis
    using assms by (simp add: save_clip_def Let_def log_msg_def py_print_def cs f o)
qed

lemma save_clip_empty:
  "save_clip enc listdir s files [] = (py_print ''Error: No frames to save'' s, files)"
  by (simp add: save_clip_def)

lemma save_clip_nonempty_not_error:
  assumes "frames \<noteq> []"
  shows "save_clip enc listdir s files frames \<noteq> (py_print ''Error: No frames to save'' s, files)"
proof
  assume "save_clip enc listdir s files frames = (py_print ''Error: No frames to save'' s, files)"
  then have "stdout (fst (save_clip enc listdir s files frames)) =
             stdout (py_print ''Error: No frames to save'' s)"
    by simp
  then show False
    by (simp add: save_clip_nonempty [OF assms] py_print_def)
qed




text \<open>
  Claim C8, as amended. If the bound \<open>CLIP_DURATION_SECONDS * CLIP_FPS\<close> of the deque
  is at least one, every buffer that the loop puts on the buffer queue holds at least one
  frame, and \<open>save_clip\<close> on such a buffer does not take its "No frames to save" branch.
\<close>

theorem handed_buffers_nonempty:
  assumes "start_recording av s ts = (st, s', Some r)"
    and "1 \<le> CLIP_DURATION_SECONDS s * CLIP_FPS s"
  shows "\<forall>b. Put b \<in> set (buffer_queue r) \<longrightarrow>
           b \<noteq> [] \<and>
           (\<forall>enc listdir t files.
              save_clip enc listdir t files b \<noteq> (py_print ''Error: No frames to save'' t, files))"
proof (intro allI impI)
  fix b
  assume put: "Put b \<in> set (buffer_queue r)"
  from start_recording_facts [OF assms(1)] obtain dq where
    d: "deque_new (CLIP_DURATION_SECONDS s * CLIP_FPS s) = Inr dq" and
    l: "recording_loop (CLIP_FPS s) \<lparr>video_buffer = dq, buffer_queue = []\<rparr> ts = (st, r)"
    by blast
  from deque_new_Inr [OF d] assms(2) have m: "1 \<le> maxlen dq" and e: "items dq = []"
    by simp_all
  have "puts_ok (maxlen dq) (buffer_queue r)"
    using recording_loop_invariant [OF l] e by (simp add: within_bound_def puts_ok_def)
  with put m have "b \<noteq> []" by (simp add: puts_ok_def)
  then show "b \<noteq> [] \<and>
           (\<forall>enc listdir t files.
              save_clip enc listdir t files b \<noteq> (py_print ''Error: No frames to save'' t, files))"
    by (simp add: save_clip_nonempty_not_error)
qed

theorem handed_buffers_nonempty_witness:
  "start_recording example_backend (default_state\<lparr>CLIP_FPS := 30, CLIP_DURATION_SECONDS := 10\<rparr>)
       [capture (1 :: nat), \<lparr>shot = Some 2, command = Some ''save''\<rparr>, capture 3] =
     (Running,
      default_state\<lparr>CLIP_FPS := 30, CLIP_DURATION_SECONDS := 10, CLIP_BITRATE := Num 10000000,
                     stdout := [''Auto bitrate set to 10 Mbps'', ''Starting recording loop'']\<rparr>,
      Some \<lparr>video_buffer = \<lparr>maxlen = 300, items = [3]\<rparr>, buffer_queue = [Put [1, 2], Join]\<rparr>) \<and>
   (1 :: int) \<le> 10 * 30 \<and> [1, 2 :: nat] \<noteq> []"
proof -
  let ?S = "default_state\<lparr>CLIP_FPS := 30, CLIP_DURATION_SECONDS := 10\<rparr>"
  have dq: "deque_new (10 * 30) = Inr \<lparr>maxlen = 300, items = ([] :: nat list)\<rparr>"
    by (simp add: deque_new_def)
  have run: "recording_loop 30 \<lparr>video_buffer = \<lparr>maxlen = 300, items = []\<rparr>, buffer_queue = []\<rparr>
               [capture (1 :: nat), \<lparr>shot = Some 2, command = Some ''save''\<rparr>, capture 3] =
             (Running, \<lparr>video_buffer = \<lparr>maxlen = 300, items = [3]\<rparr>,
                        buffer_queue = [Put [1, 2], Join]\<rparr>)"
    by (simp add: capture_def loop_pass_def sleep_at_30 deque_append_def deque_clear_def Let_def)
  have le: "(30 :: int) \<le> 30" by simp
  note h = example_recording [OF le dq run]
  have big: "1 \<le> CLIP_DURATION_SECONDS ?S * CLIP_FPS ?S"
    by (simp add: default_state_def)
  from handed_buffers_nonempty [OF h big] have "[1, 2 :: nat] \<noteq> []"
    by simp
  with h show ?thesis by simp
qed

text \<open>
  The claim as it was stated fails when the bound is 0, here with
  \<open>CLIP_DURATION_SECONDS = 0\<close>: the frame appended is dropped at once, the buffer handed
  over on \<open>"save"\<close> is empty, and \<open>save_clip\<close> on it reports that there are no frames.
\<close>

theorem handed_buffer_empty_at_zero_duration:
  "start_recording example_backend (default_state\<lparr>CLIP_FPS := 30, CLIP_DURATION_SECONDS := 0\<rparr>)
       [\<lparr>shot = Some (1 :: nat), command = Some ''save''\<rparr>] =
     (Running,
      default_state\<lparr>CLIP_FPS := 30, CLIP_DURATION_SECONDS := 0, CLIP_BITRATE := Num 10000000,
                     stdout := [''Auto bitrate set to 10 Mbps'', ''Starting recording loop'']\<rparr>,
      Some \<lparr>video_buffer = \<lparr>maxlen = 0, items = []\<rparr>, buffer_queue = [Put [], Join]\<rparr>) \<and>
   save_clip direct_encoder [] default_state Map.empty [] =
     (default_state\<lparr>stdout := [''Error: No frames to save'']\<rparr>, Map.empty)"
proof -
  have dq: "deque_new (0 * 30) = Inr \<lparr>maxlen = 0, items = ([] :: nat list)\<rparr>"
    by (simp add: deque_new_def)
  have run: "recording_loop 30 \<lparr>video_buffer = \<lparr>maxlen = 0, items = []\<rparr>, buffer_queue = []\<rparr>
               [\<lparr>shot = Some (1 :: nat), command = Some ''save''\<rparr>] =
             (Running, \<lparr>video_buffer = \<lparr>maxlen = 0, items = []\<rparr>, buffer_queue = [Put [], Join]\<rparr>)"
    by (simp add: loop_pass_def sleep_at_30 deque_append_def deque_clear_def Let_def)
  have le: "(30 :: int) \<le> 30" by simp
  have sv: "save_clip direct_encoder [] default_state Map.empty [] =
              (default_state\<lparr>stdout := [''Error: No frames to save'']\<rparr>, Map.empty)"
    by (simp add: save_clip_empty py_print_def default_state_def)
  show ?thesis
    using example_recording [OF le dq run] sv by simp
qed

section \<open>Rounding to a double\<close>

lemma int_div_bounds:
  fixes a b :: int
  assumes "0 < b"
  shows "a div b * b \<le> a" and "a < (a div b + 1) * b"
proof -
  have e: "a div b * b + a mod b = a" by simp
  have "0 \<le> a mod b" and "a mod b < b" using assms by simp_all
  with e show "a div b * b \<le> a" by linarith
  have "(a div b + 1) * b = a div b * b + b" by (simp add: algebra_simps)
  with e \<open>a mod b < b\<close> show "a < (a div b + 1) * b" by linarith
qed

text \<open>For a fraction of at least one, \<open>ilog2_ratio\<close> is the position of its leading bit.\<close>

lemma ilog2_ratio_bounds:
  assumes "0 < b" and "b \<le> a"
  shows "0 \<le> ilog2_ratio a b \<and> b * 2 ^ nat (ilog2_ratio a b) \<le> a \<and>
         a < b * 2 ^ Suc (nat (ilog2_ratio a b))"
proof -
  define q where "q = a div b"
  define n where "n = nat q"
  define j where "j = bit_length n - 1"
  have "0 < q" using assms by (simp add: q_def pos_imp_zdiv_pos_iff)
  then have npos: "0 < n" and nq: "int n = q" by (simp_all add: n_def)
  have bl: "0 < bit_length n" using npos by (rule bit_length_pos)
  then have blj: "bit_length n = Suc j" by (simp add: j_def)
  have il: "ilog2_ratio a b = int j"
    using assms(2) blj by (simp add: ilog2_ratio_def q_def [symmetric] n_def [symmetric])
  have "2 ^ j \<le> n" using bit_length_lower [OF npos] by (simp add: j_def)
  then have "int (2 ^ j) \<le> int n" by (simp only: of_nat_le_iff)
  then have lo: "2 ^ j \<le> q" using nq by simp
  have "n < 2 ^ Suc j" using bit_length_upper [of n] blj by simp
  then have "int n < int (2 ^ Suc j)" by (simp only: of_nat_less_iff)
  then have hi: "q + 1 \<le> 2 ^ Suc j" using nq by simp
  from int_div_bounds [OF assms(1), of a] have qa: "q * b \<le> a" and aq: "a < (q + 1) * b"
    by (simp_all add: q_def)
  have "b * 2 ^ j \<le> b * q" using lo assms(1) by (simp add: mult_left_mono)
  with qa have l: "b * 2 ^ j \<le> a" by (simp add: mult.commute)
  have "(q + 1) * b \<le> 2 ^ Suc j * b" using hi assms(1) by (intro mult_right_mono) simp_all
  with aq have u: "a < b * 2 ^ Suc j" by (simp add: mult.commute)
  from l u show ?thesis by (simp add: il)
qed

lemma nearest_even_div_exact: "0 < den \<Longrightarrow> nearest_even_div (n * den) den = n"
  by (simp add: nearest_even_div_def tie_break_def)

lemma nearest_even_div_nonneg: "0 < den \<Longrightarrow> 0 \<le> num \<Longrightarrow> 0 \<le> nearest_even_div num den"
proof -
  assume "0 < den" and "0 \<le> num"
  then have "0 \<le> num div den" by (simp add: pos_imp_zdiv_nonneg_iff)
  with tie_break_range [of "num div den" "num mod den" den] show ?thesis
    by (simp add: nearest_even_div_def)
qed

text \<open>
  A fraction in \<open>[1, 2 ^ K)\<close> with \<open>K \<le> 52\<close> is rounded at a negative exponent, and the
  double is within \<open>1 / 2 ^ (54 - K)\<close> of it.
\<close>

lemma round_ratio_shape:
  assumes "0 < b" and "b \<le> a" and "a < b * 2 ^ K" and "K \<le> 52"
  shows "\<exists>j. j < K \<and> round_ratio a b = Double (nearest_even_div (a * 2 ^ (52 - j)) b) (int j - 52)"
proof -
  define j where "j = nat (ilog2_ratio a b)"
  from ilog2_ratio_bounds [OF assms(1,2)] have
    k0: "0 \<le> ilog2_ratio a b" and lo: "b * 2 ^ j \<le> a" and hi: "a < b * 2 ^ Suc j"
    by (simp_all add: j_def)
  have kj: "ilog2_ratio a b = int j" using k0 by (simp add: j_def)
  have jK: "j < K"
  proof (rule ccontr)
    assume "\<not> j < K"
    then have "K \<le> j" by simp
    then have "(2::int) ^ K \<le> 2 ^ j" by (intro power_increasing) simp_all
    then have "b * 2 ^ K \<le> b * 2 ^ j" using assms(1) by (simp add: mult_left_mono)
    with lo assms(3) show False by linarith
  qed
  then have j52: "j < 52" using assms(4) by simp
  then have n: "nat (52 - int j) = 52 - j" by simp
  have "round_ratio a b = Double (nearest_even_div (a * 2 ^ (52 - j)) b) (int j - 52)"
    using j52 by (simp add: round_ratio_def kj round_at_def n)
  with jK show ?thesis by blast
qed

lemma dval_negative_expo:
  "j < 52 \<Longrightarrow> dval (Double m (int j - 52)) = of_int m / 2 ^ (52 - j)"
proof -
  assume "j < 52"
  then have "nat (52 - int j) = 52 - j" by simp
  with \<open>j < 52\<close> show ?thesis by (simp add: dval_def)
qed

lemma round_ratio_near:
  assumes "0 < b" and "b \<le> a" and "a < b * 2 ^ K" and "K \<le> 52"
  shows "expo (round_ratio a b) < 0 \<and> 0 \<le> mant (round_ratio a b) \<and>
         \<bar>dval (round_ratio a b) - of_int a / of_int b\<bar> \<le> 1 / 2 ^ (54 - K)"
proof -
  from round_ratio_shape [OF assms] obtain j where
    jK: "j < K" and
    rr: "round_ratio a b = Double (nearest_even_div (a * 2 ^ (52 - j)) b) (int j - 52)"
    by blast
  define P :: int where "P = 2 ^ (52 - j)"
  define m where "m = nearest_even_div (a * P) b"
  have j52: "j < 52" using jK assms(4) by simp
  have Ppos: "0 < P" by (simp add: P_def)
  have apos: "0 \<le> a" using assms(1,2) by simp
  have mpos: "0 \<le> m"
    unfolding m_def using assms(1) apos Ppos by (intro nearest_even_div_nonneg) simp_all
  have near: "2 * \<bar>m * b - a * P\<bar> \<le> b"
    unfolding m_def by (rule nearest_even_div_near [OF assms(1)])
  have bq: "(0::rat) < of_int b" and Pq: "(0::rat) < of_int P"
    using assms(1) Ppos by simp_all
  have "\<bar>(of_int m :: rat) / of_int P - of_int a / of_int b\<bar> =
        \<bar>of_int (m * b - a * P)\<bar> / (of_int P * of_int b)"
    using bq Pq by (simp add: field_simps abs_mult abs_divide flip: abs_of_pos)
  also have "\<dots> = of_int \<bar>m * b - a * P\<bar> / (of_int P * of_int b)"
    by simp
  also have "\<dots> \<le> (of_int b / 2) / (of_int P * of_int b)"
  proof -
    have "(of_int (2 * \<bar>m * b - a * P\<bar>) :: rat) \<le> of_int b"
      using near by (simp only: of_int_le_iff)
    then have "(of_int \<bar>m * b - a * P\<bar> :: rat) \<le> of_int b / 2" by simp
    then show ?thesis using bq Pq by (intro divide_right_mono) simp_all
  qed
  also have "\<dots> = 1 / (2 * of_int P)"
    using bq Pq by (simp add: field_simps)
  also have "\<dots> = 1 / 2 ^ (53 - j)"
  proof -
    have "53 - j = Suc (52 - j)" using j52 by simp
    then show ?thesis by (simp add: P_def)
  qed
  also have "\<dots> \<le> 1 / 2 ^ (54 - K)"
  proof -
    have "54 - K \<le> 53 - j" using jK by simp
    then have "(2::rat) ^ (54 - K) \<le> 2 ^ (53 - j)" by (intro power_increasing) simp_all
    then show ?thesis by (simp add: frac_le)
  qed
  finally have "\<bar>(of_int m :: rat) / of_int P - of_int a / of_int b\<bar> \<le> 1 / 2 ^ (54 - K)" .
  moreover have "dval (round_ratio a b) = of_int m / of_int P"
    using dval_negative_expo [OF j52] by (simp add: rr m_def P_def)
  ultimately show ?thesis
    using j52 mpos by (simp add: rr m_def P_def)
qed

text \<open>A whole number below \<open>2 ^ 52\<close>, given as a fraction, is kept exactly.\<close>

lemma round_ratio_exact:
  assumes "0 < b" and "1 \<le> n" and "n < 2 ^ 52"
  shows "\<exists>j < 52. round_ratio (n * b) b = Double (n * 2 ^ (52 - j)) (int j - 52)"
proof -
  have le: "b \<le> n * b" using assms(1,2) by (simp add: mult_le_cancel_right1)
  have lt: "n * b < b * 2 ^ 52" using assms(1,3) by (simp add: mult.commute)
  from round_ratio_shape [OF assms(1) le lt] obtain j where
    j: "j < 52" and
    rr: "round_ratio (n * b) b = Double (nearest_even_div (n * b * 2 ^ (52 - j)) b) (int j - 52)"
    by auto
  have "n * b * 2 ^ (52 - j) = (n * 2 ^ (52 - j)) * b" by (simp add: algebra_simps)
  then have "nearest_even_div (n * b * 2 ^ (52 - j)) b = n * 2 ^ (52 - j)"
    using assms(1) by (simp only: nearest_even_div_exact)
  with rr j show ?thesis by auto
qed

section \<open>The float operations of the bit rate scaling\<close>

lemma not_overflows_negative_expo: "expo d < 0 \<Longrightarrow> \<not> overflows d"
  by (simp add: overflows_def)

lemma py_float_exact:
  assumes "1 \<le> n" and "n < 2 ^ 52"
  shows "\<exists>j < 52. py_float n = Inr (Double (n * 2 ^ (52 - j)) (int j - 52))"
proof -
  from round_ratio_exact [of 1 n] assms obtain j where
    j: "j < 52" and rr: "round_ratio n 1 = Double (n * 2 ^ (52 - j)) (int j - 52)"
    by auto
  have "py_float n = Inr (Double (n * 2 ^ (52 - j)) (int j - 52))"
    using assms(1) j by (simp add: py_float_def signed_or_raise_def rr overflows_def)
  with j show ?thesis by blast
qed

lemma py_truediv_near:
  assumes "0 < b" and "b \<le> a" and "a < b * 2 ^ K" and "K \<le> 52"
  shows "\<exists>d. py_truediv a b = Inr d \<and> expo d < 0 \<and> 0 \<le> mant d \<and>
             \<bar>dval d - of_int a / of_int b\<bar> \<le> 1 / 2 ^ (54 - K)"
proof -
  note n = round_ratio_near [OF assms]
  have "py_truediv a b = Inr (round_ratio a b)"
    using assms(1,2) n by (simp add: py_truediv_def signed_or_raise_def not_overflows_negative_expo)
  with n show ?thesis by simp
qed

lemma py_truediv_exact:
  assumes "0 < b" and "1 \<le> n" and "n < 2 ^ 52"
  shows "\<exists>j < 52. py_truediv (n * b) b = Inr (Double (n * 2 ^ (52 - j)) (int j - 52))"
proof -
  from round_ratio_exact [OF assms] obtain j where
    j: "j < 52" and rr: "round_ratio (n * b) b = Double (n * 2 ^ (52 - j)) (int j - 52)"
    by auto
  have "0 < n * b" using assms(1,2) by simp
  then have "py_truediv (n * b) b = Inr (Double (n * 2 ^ (52 - j)) (int j - 52))"
    using assms(1) j by (simp add: py_truediv_def signed_or_raise_def rr overflows_def)
  with j show ?thesis by blast
qed

text \<open>The product of two positive doubles with negative exponents.\<close>

lemma float_mul_as_ratio:
  assumes "ex < 0" and "ey < 0" and "0 \<le> mx" and "0 \<le> my"
  shows "float_mul (Double mx ex) (Double my ey) =
           signed_or_inf False (round_ratio (mx * my) (2 ^ (nat (- ex) + nat (- ey))))"
proof -
  have "0 \<le> mx * my" using assms(3,4) by simp
  moreover have "nat (- (ex + ey)) = nat (- ex) + nat (- ey)" using assms(1,2) by simp
  ultimately show ?thesis
    using assms(1,2) by (simp add: float_mul_def round_scaled_def)
qed

lemma dval_product:
  assumes "ex < 0" and "ey < 0"
  shows "dval (Double mx ex) * dval (Double my ey) =
           of_int (mx * my) / of_int (2 ^ (nat (- ex) + nat (- ey)))"
  using assms by (simp add: dval_def power_add)

lemma float_mul_near:
  assumes "expo x < 0" and "expo y < 0" and "0 \<le> mant x" and "0 \<le> mant y"
    and "1 \<le> dval x * dval y" and "dval x * dval y < 2 ^ K" and "K \<le> 52"
  shows "\<exists>d. float_mul x y = Finite d \<and> expo d < 0 \<and> 0 \<le> mant d \<and>
             \<bar>dval d - dval x * dval y\<bar> \<le> 1 / 2 ^ (54 - K)"
proof -
  obtain mx ex where x: "x = Double mx ex" by (cases x)
  obtain my ey where y: "y = Double my ey" by (cases y)
  define B :: int where "B = 2 ^ (nat (- ex) + nat (- ey))"
  define a where "a = mx * my"
  have neg: "ex < 0" "ey < 0" and pos: "0 \<le> mx" "0 \<le> my"
    using assms(1-4) by (simp_all add: x y)
  have Bpos: "0 < B" by (simp add: B_def)
  have Bq: "(0::rat) < of_int B" using Bpos by simp
  have prod: "dval x * dval y = of_int a / of_int B"
    unfolding x y a_def B_def by (rule dval_product [OF neg])
  have "(of_int B :: rat) \<le> of_int a"
    using assms(5) Bq by (simp add: prod pos_le_divide_eq)
  then have le: "B \<le> a" by (simp only: of_int_le_iff)
  have "(of_int a :: rat) < 2 ^ K * of_int B"
    using assms(6) Bq by (simp add: prod pos_divide_less_eq)
  then have "(of_int a :: rat) < of_int (B * 2 ^ K)" by (simp add: mult.commute)
  then have lt: "a < B * 2 ^ K" by (simp only: of_int_less_iff)
  note n = round_ratio_near [OF Bpos le lt assms(7)]
  have "float_mul x y = Finite (round_ratio a B)"
    using n by (simp add: x y float_mul_as_ratio [OF neg pos] signed_or_inf_def
                  not_overflows_negative_expo a_def B_def)
  with n show ?thesis by (simp add: prod)
qed

lemma float_mul_exact:
  assumes "i < 52" and "j < 52" and "1 \<le> v * n" and "v * n < 2 ^ 52" and "0 \<le> v" and "0 \<le> n"
  shows "\<exists>l < 52. float_mul (Double (v * 2 ^ (52 - i)) (int i - 52))
                              (Double (n * 2 ^ (52 - j)) (int j - 52)) =
                    Finite (Double (v * n * 2 ^ (52 - l)) (int l - 52))"
proof -
  define B :: int where "B = 2 ^ ((52 - i) + (52 - j))"
  have Bpos: "0 < B" by (simp add: B_def)
  have ni: "nat (52 - int i) = 52 - i" and nj: "nat (52 - int j) = 52 - j"
    using assms(1,2) by simp_all
  have a: "v * 2 ^ (52 - i) * (n * 2 ^ (52 - j)) = v * n * B"
    by (simp add: B_def power_add algebra_simps)
  have "float_mul (Double (v * 2 ^ (52 - i)) (int i - 52)) (Double (n * 2 ^ (52 - j)) (int j - 52)) =
          signed_or_inf False (round_ratio (v * n * B) B)"
    using assms(1,2,5,6) by (subst float_mul_as_ratio) (simp_all add: ni nj a B_def)
  moreover from round_ratio_exact [OF Bpos assms(3,4)] obtain l where
    l: "l < 52" and "round_ratio (v * n * B) B = Double (v * n * 2 ^ (52 - l)) (int l - 52)"
    by auto
  ultimately have "float_mul (Double (v * 2 ^ (52 - i)) (int i - 52))
                             (Double (n * 2 ^ (52 - j)) (int j - 52)) =
                   Finite (Double (v * n * 2 ^ (52 - l)) (int l - 52))"
    using l by (simp add: signed_or_inf_def overflows_def)
  with l show ?thesis by blast
qed

text \<open>\<open>int\<close> of a positive double with a negative exponent is the floor of its value.\<close>

lemma py_int_floor:
  assumes "expo d < 0" and "0 \<le> mant d"
  shows "py_int (Finite d) = Inr \<lfloor>dval d\<rfloor>"
proof -
  have "\<lfloor>(of_int (mant d) :: rat) / of_int (2 ^ nat (- expo d))\<rfloor> = mant d div 2 ^ nat (- expo d)"
    by (rule floor_divide_of_int_eq)
  then show ?thesis using assms by (simp add: py_int_def dval_def)
qed

lemma py_int_exact:
  assumes "l < 52" and "0 \<le> N"
  shows "py_int (Finite (Double (N * 2 ^ (52 - l)) (int l - 52))) = Inr N"
proof -
  have "nat (52 - int l) = 52 - l" using assms(1) by simp
  then show ?thesis using assms by (simp add: py_int_def)
qed

text \<open>
  A number within a thirtieth of \<open>N / 30\<close> has the floor of \<open>N / 30\<close> or one less, and the
  floor itself unless 30 divides \<open>N\<close>.
\<close>

lemma floor_near_thirtieth:
  fixes p :: rat and N :: int
  assumes "\<bar>p - of_int N / 30\<bar> < 1 / 30"
  shows "(\<lfloor>p\<rfloor> = N div 30 \<or> \<lfloor>p\<rfloor> = N div 30 - 1) \<and> (\<not> 30 dvd N \<longrightarrow> \<lfloor>p\<rfloor> = N div 30)"
proof -
  define F where "F = N div 30"
  define j where "j = N mod 30"
  have N: "N = 30 * F + j" by (simp add: F_def j_def)
  have j: "0 \<le> j" "j < 30" by (simp_all add: j_def)
  have x: "(of_int N :: rat) / 30 = of_int F + of_int j / 30" by (simp add: N)
  have jq: "(0::rat) \<le> of_int j" "(of_int j :: rat) \<le> 29"
    using j by simp_all
  from assms have lo: "of_int F + of_int j / 30 - 1 / 30 < p" and hi: "p < of_int F + of_int j / 30 + 1 / 30"
    unfolding x by linarith+
  have up: "p < of_int F + 1" using hi jq by simp
  have "of_int (F - 1) \<le> p" using lo jq by simp
  have two: "\<lfloor>p\<rfloor> = F \<or> \<lfloor>p\<rfloor> = F - 1"
  proof (cases "of_int F \<le> p")
    case True
    with up have "\<lfloor>p\<rfloor> = F" by (intro floor_unique) simp_all
    then show ?thesis by simp
  next
    case False
    with \<open>of_int (F - 1) \<le> p\<close> have "\<lfloor>p\<rfloor> = F - 1" by (intro floor_unique) simp_all
    then show ?thesis by simp
  qed
  have "\<lfloor>p\<rfloor> = F" if "\<not> 30 dvd N"
  proof -
    from that have "j \<noteq> 0" by (simp add: j_def dvd_eq_mod_eq_0)
    with j have "1 \<le> j" by simp
    then have "(1::rat) \<le> of_int j" by simp
    with lo have "of_int F \<le> p" by simp
    with up show ?thesis by (intro floor_unique) simp_all
  qed
  with two show ?thesis by (simp add: F_def)
qed

section \<open>The resolved bit rate\<close>

lemma auto_bitrates_range:
  "map_of AUTO_BITRATES k = Some v \<Longrightarrow> 5000000 \<le> v \<and> v \<le> 30000000"
  by (auto simp: AUTO_BITRATES_def split: if_splits)

text \<open>
  The three float operations of lines 93 and 94 on a table value \<open>v\<close> and a frame rate
  above 30: none of them raises, and the result is the floor of \<open>v * fps / 30\<close> or one
  less; it is the floor whenever \<open>v * fps / 30\<close> is not whole.
\<close>

lemma scaled_bitrate_near:
  assumes "1 \<le> v" and "v \<le> 30000000" and "30 < fps" and "fps \<le> 1000000"
  shows "\<exists>m p b'. py_truediv fps 30 = Inr m \<and> py_mul_int_float v m = Inr p \<and>
           py_int p = Inr b' \<and>
           (b' = v * fps div 30 \<or> b' = v * fps div 30 - 1) \<and>
           (\<not> 30 dvd v * fps \<longrightarrow> b' = v * fps div 30)"
proof -
  define V :: rat where "V = of_int v"
  define X :: rat where "X = of_int fps / 30"
  have V1: "1 \<le> V" and Vu: "V \<le> 30000000" using assms(1,2) by (simp_all add: V_def)
  have "(31::rat) \<le> of_int fps" using assms(3) by simp
  then have Xl: "31 / 30 \<le> X" by (simp add: X_def)
  have "(of_int fps :: rat) \<le> 1000000" using assms(4) by simp
  then have Xu: "X \<le> 1000000 / 30" by (simp add: X_def)
  have a1: "(30::int) \<le> fps" and a2: "fps < 30 * 2 ^ 16" using assms(3,4) by simp_all
  from py_truediv_near [of 30 fps 16, OF _ a1 a2] obtain m where
    m: "py_truediv fps 30 = Inr m" and me: "expo m < 0" and mm: "0 \<le> mant m" and
    mn: "\<bar>dval m - X\<bar> \<le> 1 / 2 ^ 38"
    by (auto simp: X_def)
  have small: "(1::rat) / 2 ^ 38 \<le> 1 / 30" by simp
  have Yl: "1 \<le> dval m" and Yu: "dval m \<le> 33335"
    using mn small Xl Xu by linarith+
  have v52: "v < 2 ^ 52" using assms(2) by simp
  from py_float_exact [OF assms(1) v52] obtain i where
    i: "i < 52" and fv: "py_float v = Inr (Double (v * 2 ^ (52 - i)) (int i - 52))"
    by blast
  define xv where "xv = Double (v * 2 ^ (52 - i)) (int i - 52)"
  have xve: "expo xv < 0" and xvm: "0 \<le> mant xv"
    using i assms(1) by (simp_all add: xv_def)
  have xvv: "dval xv = V"
    unfolding xv_def V_def by (simp add: dval_negative_expo [OF i])
  have lo: "1 \<le> dval xv * dval m"
  proof -
    have "1 * 1 \<le> V * dval m" using V1 Yl by (intro mult_mono) simp_all
    then show ?thesis by (simp add: xvv)
  qed
  have hi: "dval xv * dval m < 2 ^ 41"
  proof -
    have "V * dval m \<le> 30000000 * 33335" using Vu Yu V1 Yl by (intro mult_mono) simp_all
    then show ?thesis by (simp add: xvv)
  qed
  from float_mul_near [OF xve me xvm mm lo hi] obtain d where
    d: "float_mul xv m = Finite d" and de: "expo d < 0" and dm: "0 \<le> mant d" and
    dn: "\<bar>dval d - V * dval m\<bar> \<le> 1 / 2 ^ 13"
    by (auto simp: xvv)
  have p: "py_mul_int_float v m = Inr (Finite d)"
    by (simp add: py_mul_int_float_def fv d [unfolded xv_def])
  have b': "py_int (Finite d) = Inr \<lfloor>dval d\<rfloor>"
    by (rule py_int_floor [OF de dm])
  have "\<bar>V * dval m - V * X\<bar> = V * \<bar>dval m - X\<bar>"
    using V1 by (simp add: abs_mult flip: right_diff_distrib)
  also have "\<dots> \<le> 30000000 * (1 / 2 ^ 38)"
    using Vu mn V1 by (intro mult_mono) simp_all
  finally have "\<bar>V * dval m - V * X\<bar> \<le> 30000000 / 2 ^ 38" by simp
  with dn have "\<bar>dval d - V * X\<bar> \<le> 1 / 2 ^ 13 + 30000000 / 2 ^ 38" by linarith
  also have "\<dots> < 1 / 30" by simp
  finally have "\<bar>dval d - of_int (v * fps) / 30\<bar> < 1 / 30"
    by (simp add: V_def X_def)
  from floor_near_thirtieth [OF this] m p b' show ?thesis by blast
qed

text \<open>
  When the frame rate is \<open>30 * n\<close>, the multiplier is \<open>n\<close> and the product is \<open>v * n\<close>,
  both without rounding.
\<close>

lemma scaled_bitrate_exact:
  assumes "1 \<le> v" and "1 \<le> n" and "v * n < 2 ^ 52"
  shows "\<exists>m p. py_truediv (n * 30) 30 = Inr m \<and> py_mul_int_float v m = Inr p \<and>
           py_int p = Inr (v * n)"
proof -
  have "n * 1 \<le> n * v" using assms(1,2) by (intro mult_left_mono) simp_all
  then have n52: "n < 2 ^ 52" using assms(3) by (simp add: mult.commute)
  have "v * 1 \<le> v * n" using assms(1,2) by (intro mult_left_mono) simp_all
  then have v52: "v < 2 ^ 52" using assms(3) by simp
  have vn: "1 \<le> v * n" using assms(1,2) by (simp add: mult_mono [of 1 v 1 n, simplified])
  from py_truediv_exact [of 30 n, OF _ assms(2) n52] obtain j where
    j: "j < 52" and m: "py_truediv (n * 30) 30 = Inr (Double (n * 2 ^ (52 - j)) (int j - 52))"
    by auto
  from py_float_exact [OF assms(1) v52] obtain i where
    i: "i < 52" and fv: "py_float v = Inr (Double (v * 2 ^ (52 - i)) (int i - 52))"
    by blast
  from float_mul_exact [OF i j vn assms(3)] assms(1,2) obtain l where
    l: "l < 52" and
    fm: "float_mul (Double (v * 2 ^ (52 - i)) (int i - 52)) (Double (n * 2 ^ (52 - j)) (int j - 52)) =
           Finite (Double (v * n * 2 ^ (52 - l)) (int l - 52))"
    by auto
  have "py_mul_int_float v (Double (n * 2 ^ (52 - j)) (int j - 52)) =
          Inr (Finite (Double (v * n * 2 ^ (52 - l)) (int l - 52)))"
    by (simp add: py_mul_int_float_def fv fm)
  moreover have "py_int (Finite (Double (v * n * 2 ^ (52 - l)) (int l - 52))) = Inr (v * n)"
    using vn by (intro py_int_exact [OF l]) simp
  ultimately show ?thesis using m by blast
qed

lemma report_auto_result:
  "fst (report_auto b s) = Inr True \<and> CLIP_BITRATE (snd (report_auto b s)) = CLIP_BITRATE s"
  by (simp add: report_auto_def py_print_def)

text \<open>
  Claim C4, as amended. With a supported codec and format, the bit rate \<open>"auto"\<close> and the
  resolution in the table with value \<open>v\<close>, the call returns \<open>True\<close> and the resolved bit
  rate is: \<open>v\<close> when \<open>CLIP_FPS \<le> 30\<close>; exactly \<open>v * CLIP_FPS / 30\<close> when \<open>CLIP_FPS\<close> is
  a multiple of 30 above 30 and that product is below \<open>2 ^ 52\<close>, so \<open>v * 2\<close> at 60
  frames per second; and for \<open>30 < CLIP_FPS \<le> 1000000\<close> the integer part of
  \<open>v * CLIP_FPS / 30\<close> whenever that number is not whole. Where it is whole and \<open>CLIP_FPS\<close>
  is not a multiple of 30, the theorem bounds the result: that number or one less.
\<close>

theorem auto_bitrate_resolution:
  assumes "CLIP_CODEC s \<in> SUPPORTED_CODECS av" and "CLIP_FORMAT s \<in> SUPPORTED_FORMATS av"
    and "CLIP_BITRATE s = Str ''auto''"
    and "map_of AUTO_BITRATES (size_key (CLIP_SIZE s)) = Some v"
  shows "(CLIP_FPS s \<le> 30 \<longrightarrow>
            fst (clip_compatibility av s) = Inr True \<and>
            CLIP_BITRATE (snd (clip_compatibility av s)) = Num v) \<and>
         (30 < CLIP_FPS s \<and> CLIP_FPS s \<le> 1000000 \<longrightarrow>
            fst (clip_compatibility av s) = Inr True \<and>
            (CLIP_BITRATE (snd (clip_compatibility av s)) = Num (v * CLIP_FPS s div 30) \<or>
             CLIP_BITRATE (snd (clip_compatibility av s)) = Num (v * CLIP_FPS s div 30 - 1)) \<and>
            (\<not> 30 dvd v * CLIP_FPS s \<longrightarrow>
               CLIP_BITRATE (snd (clip_compatibility av s)) = Num (v * CLIP_FPS s div 30))) \<and>
         (30 < CLIP_FPS s \<and> 30 dvd CLIP_FPS s \<and> v * (CLIP_FPS s div 30) < 2 ^ 52 \<longrightarrow>
            fst (clip_compatibility av s) = Inr True \<and>
            CLIP_BITRATE (snd (clip_compatibility av s)) = Num (v * (CLIP_FPS s div 30))) \<and>
         (CLIP_FPS s = 60 \<longrightarrow>
            fst (clip_compatibility av s) = Inr True \<and>
            CLIP_BITRATE (snd (clip_compatibility av s)) = Num (v * 2))"
proof -
  from auto_bitrates_range [OF assms(4)] have v1: "1 \<le> v" and vu: "v \<le> 30000000"
    by simp_all
  have base: "fst (clip_compatibility av s) = Inr True \<and>
              CLIP_BITRATE (snd (clip_compatibility av s)) = Num v" if "CLIP_FPS s \<le> 30"
    using report_auto_result [of v "s\<lparr>CLIP_BITRATE := Num v\<rparr>"]
    by (simp add: clip_compatibility_base [OF assms that])
  have scaled: "fst (clip_compatibility av s) = Inr True \<and>
                CLIP_BITRATE (snd (clip_compatibility av s)) = Num b'"
    if "30 < CLIP_FPS s" and "py_truediv (CLIP_FPS s) 30 = Inr m"
      and "py_mul_int_float v m = Inr p" and "py_int p = Inr b'" for m p b'
    using report_auto_result
      [of b' "py_print ''clip fps higher than 30, adjusting bitrate.'' s\<lparr>CLIP_BITRATE := Num b'\<rparr>"]
    by (simp add: clip_compatibility_scaled [OF assms that])
  have near: "fst (clip_compatibility av s) = Inr True \<and>
            (CLIP_BITRATE (snd (clip_compatibility av s)) = Num (v * CLIP_FPS s div 30) \<or>
             CLIP_BITRATE (snd (clip_compatibility av s)) = Num (v * CLIP_FPS s div 30 - 1)) \<and>
            (\<not> 30 dvd v * CLIP_FPS s \<longrightarrow>
               CLIP_BITRATE (snd (clip_compatibility av s)) = Num (v * CLIP_FPS s div 30))"
    if f: "30 < CLIP_FPS s" "CLIP_FPS s \<le> 1000000"
  proof -
    from scaled_bitrate_near [OF v1 vu f] obtain m p b' where
      "py_truediv (CLIP_FPS s) 30 = Inr m" and "py_mul_int_float v m = Inr p" and
      "py_int p = Inr b'" and
      b: "b' = v * CLIP_FPS s div 30 \<or> b' = v * CLIP_FPS s div 30 - 1"
         "\<not> 30 dvd v * CLIP_FPS s \<longrightarrow> b' = v * CLIP_FPS s div 30"
      by blast
    from scaled [OF f(1) this(1-3)] b show ?thesis by auto
  qed
  have exact: "fst (clip_compatibility av s) = Inr True \<and>
               CLIP_BITRATE (snd (clip_compatibility av s)) = Num (v * (CLIP_FPS s div 30))"
    if f: "30 < CLIP_FPS s" and dv: "30 dvd CLIP_FPS s" and small: "v * (CLIP_FPS s div 30) < 2 ^ 52"
  proof -
    define n where "n = CLIP_FPS s div 30"
    have fn: "CLIP_FPS s = n * 30" using dv by (simp add: n_def)
    have n1: "1 \<le> n" using f fn by simp
    from scaled_bitrate_exact [OF v1 n1] small obtain m p where
      "py_truediv (n * 30) 30 = Inr m" and "py_mul_int_float v m = Inr p" and
      "py_int p = Inr (v * n)"
      by (auto simp: n_def)
    then have "py_truediv (CLIP_FPS s) 30 = Inr m" "py_mul_int_float v m = Inr p"
      "py_int p = Inr (v * n)"
      by (simp_all add: fn)
    from scaled [OF f this] show ?thesis by (simp add: n_def)
  qed
  have sixty: "fst (clip_compatibility av s) = Inr True \<and>
               CLIP_BITRATE (snd (clip_compatibility av s)) = Num (v * 2)" if "CLIP_FPS s = 60"
  proof -
    have "v * (CLIP_FPS s div 30) < 2 ^ 52" using vu that by simp
    with exact that show ?thesis by simp
  qed
  from base near exact sixty show ?thesis by blast
qed

theorem auto_bitrate_resolution_witness:
  "CLIP_CODEC default_state \<in> SUPPORTED_CODECS example_backend \<and>
   CLIP_FORMAT default_state \<in> SUPPORTED_FORMATS example_backend \<and>
   CLIP_BITRATE default_state = Str ''auto'' \<and>
   map_of AUTO_BITRATES (size_key (CLIP_SIZE default_state)) = Some 10000000 \<and>
   CLIP_FPS default_state \<le> 30 \<and>
   CLIP_BITRATE (snd (clip_compatibility example_backend default_state)) = Num 10000000 \<and>
   CLIP_FPS (default_state\<lparr>CLIP_FPS := 60\<rparr>) = 60 \<and>
   30 dvd CLIP_FPS (default_state\<lparr>CLIP_FPS := 60\<rparr>) \<and>
   10000000 * (CLIP_FPS (default_state\<lparr>CLIP_FPS := 60\<rparr>) div 30) < 2 ^ 52 \<and>
   fst (clip_compatibility example_backend (default_state\<lparr>CLIP_FPS := 60\<rparr>)) = Inr True \<and>
   CLIP_BITRATE (snd (clip_compatibility example_backend (default_state\<lparr>CLIP_FPS := 60\<rparr>))) =
     Num (10000000 * 2) \<and>
   30 < CLIP_FPS (default_state\<lparr>CLIP_FPS := 31\<rparr>) \<and>
   CLIP_FPS (default_state\<lparr>CLIP_FPS := 31\<rparr>) \<le> 1000000 \<and>
   \<not> 30 dvd 10000000 * CLIP_FPS (default_state\<lparr>CLIP_FPS := 31\<rparr>) \<and>
   CLIP_BITRATE (snd (clip_compatibility example_backend (default_state\<lparr>CLIP_FPS := 31\<rparr>))) =
     Num 10333333"
proof -
  have c: "CLIP_CODEC (default_state\<lparr>CLIP_FPS := f\<rparr>) \<in> SUPPORTED_CODECS example_backend"
    and f: "CLIP_FORMAT (default_state\<lparr>CLIP_FPS := f\<rparr>) \<in> SUPPORTED_FORMATS example_backend"
    and a: "CLIP_BITRATE (default_state\<lparr>CLIP_FPS := f\<rparr>) = Str ''auto''"
    and k: "map_of AUTO_BITRATES (size_key (CLIP_SIZE (default_state\<lparr>CLIP_FPS := f\<rparr>))) = Some 10000000"
    for f
    by (simp_all add: default_state_def example_backend_def AUTO_BITRATES_def text_eval)
  have d: "default_state\<lparr>CLIP_FPS := 30\<rparr> = default_state"
    by (simp add: default_state_def)
  have f30: "CLIP_FPS (default_state\<lparr>CLIP_FPS := 30\<rparr>) \<le> 30"
    and f60: "CLIP_FPS (default_state\<lparr>CLIP_FPS := 60\<rparr>) = 60"
      "30 dvd CLIP_FPS (default_state\<lparr>CLIP_FPS := 60\<rparr>)"
      "10000000 * (CLIP_FPS (default_state\<lparr>CLIP_FPS := 60\<rparr>) div 30) < 2 ^ 52"
    and f31: "30 < CLIP_FPS (default_state\<lparr>CLIP_FPS := 31\<rparr>)"
      "CLIP_FPS (default_state\<lparr>CLIP_FPS := 31\<rparr>) \<le> 1000000"
      "\<not> 30 dvd 10000000 * CLIP_FPS (default_state\<lparr>CLIP_FPS := 31\<rparr>)"
    by simp_all
  from auto_bitrate_resolution [OF c f a k, of 30] f30
  have r30: "CLIP_BITRATE (snd (clip_compatibility example_backend (default_state\<lparr>CLIP_FPS := 30\<rparr>))) =
               Num 10000000"
    by blast
  from auto_bitrate_resolution [OF c f a k, of 60] f60(1)
  have r60: "fst (clip_compatibility example_backend (default_state\<lparr>CLIP_FPS := 60\<rparr>)) = Inr True \<and>
             CLIP_BITRATE (snd (clip_compatibility example_backend (default_state\<lparr>CLIP_FPS := 60\<rparr>))) =
               Num (10000000 * 2)"
    by blast
  from auto_bitrate_resolution [OF c f a k, of 31] f31
  have "CLIP_BITRATE (snd (clip_compatibility example_backend (default_state\<lparr>CLIP_FPS := 31\<rparr>))) =
          Num (10000000 * CLIP_FPS (default_state\<lparr>CLIP_FPS := 31\<rparr>) div 30)"
    by blast
  then have r31: "CLIP_BITRATE (snd (clip_compatibility example_backend (default_state\<lparr>CLIP_FPS := 31\<rparr>))) =
                    Num 10333333"
    by simp
  have p30: "CLIP_CODEC default_state \<in> SUPPORTED_CODECS example_backend"
    "CLIP_FORMAT default_state \<in> SUPPORTED_FORMATS example_backend"
    "CLIP_BITRATE default_state = Str ''auto''"
    "map_of AUTO_BITRATES (size_key (CLIP_SIZE default_state)) = Some 10000000"
    "CLIP_FPS default_state \<le> 30"
    "CLIP_BITRATE (snd (clip_compatibility example_backend default_state)) = Num 10000000"
    using c [of 30] f [of 30] a [of 30] k [of 30] f30 r30 unfolding d by simp_all
  show ?thesis
    by (intro conjI p30 f60 f31 r31 conjunct1 [OF r60] conjunct2 [OF r60])
qed

text \<open>
  The claim as it was stated fails in three ways. With an unsupported codec the call
  returns before the bit rate is resolved, and it stays \<open>"auto"\<close>. Above 30 frames per
  second the scaling is not exact: at 1920x1080 and 31 frames per second the scaled value
  \<open>10000000 * 31 / 30\<close> is not whole and the code resolves its integer part, 10333333; at
  3840x2160 (table value 30000000) and 65 frames per second the scaled value is the whole
  number 65000000 and the code resolves 64999999, because \<open>65 / 30\<close> is rounded to a double
  below \<open>13 / 6\<close>, the product is rounded to the double just below 65000000, and \<open>int\<close>
  truncates. And at a multiple of 30 too large for a double, \<open>30 * (2 ^ 53 + 1)\<close> frames
  per second, the multiplier is rounded to \<open>2 ^ 53\<close> and the result falls short by
  10000000.
\<close>

theorem auto_bitrate_not_proportional:
  "CLIP_BITRATE (default_state\<lparr>CLIP_CODEC := ''made_up_codec''\<rparr>) = Str ''auto'' \<and>
   map_of AUTO_BITRATES (size_key (CLIP_SIZE (default_state\<lparr>CLIP_CODEC := ''made_up_codec''\<rparr>))) =
     Some 10000000 \<and>
   CLIP_BITRATE (snd (clip_compatibility example_backend
                        (default_state\<lparr>CLIP_CODEC := ''made_up_codec''\<rparr>))) = Str ''auto'' \<and>
   CLIP_BITRATE (default_state\<lparr>CLIP_SIZE := (3840, 2160), CLIP_FPS := 65\<rparr>) = Str ''auto'' \<and>
   map_of AUTO_BITRATES (size_key (3840, 2160)) = Some 30000000 \<and>
   clip_compatibility example_backend (default_state\<lparr>CLIP_SIZE := (3840, 2160), CLIP_FPS := 65\<rparr>) =
     (Inr True,
      default_state\<lparr>CLIP_SIZE := (3840, 2160), CLIP_FPS := 65, CLIP_BITRATE := Num 64999999,
                     stdout := [''clip fps higher than 30, adjusting bitrate.'',
                                ''Auto bitrate set to 64 Mbps'']\<rparr>) \<and>
   (64999999 :: rat) \<noteq> 30000000 * (65 / 30) \<and>
   CLIP_BITRATE (snd (clip_compatibility example_backend (default_state\<lparr>CLIP_FPS := 31\<rparr>))) =
     Num 10333333 \<and>
   (10333333 :: rat) \<noteq> 10000000 * (31 / 30) \<and>
   CLIP_BITRATE (snd (clip_compatibility example_backend
                        (default_state\<lparr>CLIP_FPS := 270215977642229790\<rparr>))) =
     Num 90071992547409920000000 \<and>
   (90071992547409920000000 :: rat) \<noteq> 10000000 * (270215977642229790 / 30)"
proof -
  let ?S = "default_state\<lparr>CLIP_SIZE := (3840, 2160), CLIP_FPS := 65\<rparr>"
  let ?T = "default_state\<lparr>CLIP_FPS := 31\<rparr>"
  have k: "map_of AUTO_BITRATES (size_key (3840, 2160)) = Some 30000000"
    by (simp add: AUTO_BITRATES_def text_eval)
  have c: "CLIP_CODEC ?S \<in> SUPPORTED_CODECS example_backend"
    and f: "CLIP_FORMAT ?S \<in> SUPPORTED_FORMATS example_backend"
    and a: "CLIP_BITRATE ?S = Str ''auto''"
    and ks: "map_of AUTO_BITRATES (size_key (CLIP_SIZE ?S)) = Some 30000000"
    and fps: "30 < CLIP_FPS ?S"
    by (simp_all add: default_state_def example_backend_def k)
  have m: "py_truediv (CLIP_FPS ?S) 30 = Inr (Double 4878899596318037 (- 51))"
    by (simp add: float_eval)
  have p: "py_mul_int_float 30000000 (Double 4878899596318037 (- 51)) =
             Inr (Finite (Double 8724152319999999 (- 27)))"
    by (simp add: float_eval)
  have b: "py_int (Finite (Double 8724152319999999 (- 27))) = Inr 64999999"
    by (simp add: float_eval)
  have r65: "clip_compatibility example_backend ?S =
     (Inr True,
      default_state\<lparr>CLIP_SIZE := (3840, 2160), CLIP_FPS := 65, CLIP_BITRATE := Num 64999999,
                     stdout := [''clip fps higher than 30, adjusting bitrate.'',
                                ''Auto bitrate set to 64 Mbps'']\<rparr>)"
    by (subst clip_compatibility_scaled [OF c f a ks fps m p b])
       (simp add: report_auto_def py_print_def default_state_def text_eval)
  have c': "CLIP_CODEC ?T \<in> SUPPORTED_CODECS example_backend"
    and f': "CLIP_FORMAT ?T \<in> SUPPORTED_FORMATS example_backend"
    and a': "CLIP_BITRATE ?T = Str ''auto''"
    and ks': "map_of AUTO_BITRATES (size_key (CLIP_SIZE ?T)) = Some 10000000"
    and fps': "30 < CLIP_FPS ?T"
    by (simp_all add: default_state_def example_backend_def AUTO_BITRATES_def text_eval)
  have m': "py_truediv (CLIP_FPS ?T) 30 = Inr (Double 4653719614949513 (- 52))"
    by (simp add: float_eval)
  have p': "py_mul_int_float 10000000 (Double 4653719614949513 (- 52)) =
              Inr (Finite (Double 5547666090666667 (- 29)))"
    by (simp add: float_eval)
  have b': "py_int (Finite (Double 5547666090666667 (- 29))) = Inr 10333333"
    by (simp add: float_eval)
  have r31: "CLIP_BITRATE (snd (clip_compatibility example_backend ?T)) = Num 10333333"
    by (simp add: clip_compatibility_scaled [OF c' f' a' ks' fps' m' p' b'] report_auto_def
          py_print_def)
  let ?U = "default_state\<lparr>CLIP_FPS := 270215977642229790\<rparr>"
  have cu: "CLIP_CODEC ?U \<in> SUPPORTED_CODECS example_backend"
    and fu: "CLIP_FORMAT ?U \<in> SUPPORTED_FORMATS example_backend"
    and au: "CLIP_BITRATE ?U = Str ''auto''"
    and ku: "map_of AUTO_BITRATES (size_key (CLIP_SIZE ?U)) = Some 10000000"
    and fpsu: "30 < CLIP_FPS ?U"
    by (simp_all add: default_state_def example_backend_def AUTO_BITRATES_def text_eval)
  have mu: "py_truediv (CLIP_FPS ?U) 30 = Inr (Double 4503599627370496 1)"
    by (simp add: float_eval)
  have pu: "py_mul_int_float 10000000 (Double 4503599627370496 1) =
              Inr (Finite (Double 5368709120000000 24))"
    by (simp add: float_eval)
  have bu: "py_int (Finite (Double 5368709120000000 24)) = Inr 90071992547409920000000"
    by (simp add: float_eval)
  have ru: "CLIP_BITRATE (snd (clip_compatibility example_backend ?U)) =
              Num 90071992547409920000000"
    by (simp add: clip_compatibility_scaled [OF cu fu au ku fpsu mu pu bu] report_auto_def
          py_print_def)
  let ?M = "default_state\<lparr>CLIP_CODEC := ''made_up_codec''\<rparr>"
  have am: "CLIP_BITRATE ?M = Str ''auto''"
    and km: "map_of AUTO_BITRATES (size_key (CLIP_SIZE ?M)) = Some 10000000"
    by (simp_all add: default_state_def AUTO_BITRATES_def text_eval)
  have "CLIP_CODEC ?M \<notin> SUPPORTED_CODECS example_backend"
    by (simp add: default_state_def example_backend_def)
  then have rm: "CLIP_BITRATE (snd (clip_compatibility example_backend ?M)) = Str ''auto''"
    by (simp add: clip_compatibility_bad_codec py_print_def default_state_def)
  have n1: "(64999999 :: rat) \<noteq> 30000000 * (65 / 30)"
    and n2: "(10333333 :: rat) \<noteq> 10000000 * (31 / 30)"
    and n3: "(90071992547409920000000 :: rat) \<noteq> 10000000 * (270215977642229790 / 30)"
    by simp_all
  show ?thesis
    by (intro conjI am km rm a k r65 n1 r31 n2 ru n3)
qed

section \<open>The settings across the pipeline\<close>

lemma clip_compatibility_keeps:
  "other_settings_kept s (snd (clip_compatibility av s)) \<and>
   bitrate_kept_or_resolved s (snd (clip_compatibility av s))"
  by (auto simp: clip_compatibility_def report_auto_def py_print_def Let_def
        other_settings_kept_def bitrate_kept_or_resolved_def
           split: if_splits option.splits sum.splits)

lemma log_msg_keeps:
  "other_settings_kept s t \<Longrightarrow> other_settings_kept s (log_msg l t)"
  "bitrate_kept_or_resolved s t \<Longrightarrow> bitrate_kept_or_resolved s (log_msg l t)"
  by (simp_all add: log_msg_def py_print_def other_settings_kept_def bitrate_kept_or_resolved_def)

lemma start_recording_state:
  "fst (snd (start_recording av s ts)) = snd (clip_compatibility av s) \<or>
   fst (snd (start_recording av s ts)) =
     log_msg ''Starting recording loop'' (snd (clip_compatibility av s))"
  by (auto simp: start_recording_def Let_def split: prod.splits sum.splits)

lemma save_clip_keeps:
  "other_settings_kept s (fst (save_clip enc listdir s files frames)) \<and>
   CLIP_BITRATE (fst (save_clip enc listdir s files frames)) = CLIP_BITRATE s"
proof (cases "frames = []")
  case True
  then show ?thesis
    by (simp add: save_clip_empty py_print_def other_settings_kept_def)
next
  case False
  then show ?thesis
    by (simp add: save_clip_nonempty other_settings_kept_def)
qed

text \<open>
  Claim C6, as amended. Codec, container format, resolution, frame rate and quality
  parameter (and the clip directory and duration) are the same after
  \<open>clip_compatibility\<close>, after \<open>start_recording\<close> and after \<open>save_clip\<close> as before.
  \<open>save_clip\<close> leaves the bit rate as it is. \<open>clip_compatibility\<close>, and
  \<open>start_recording\<close> which calls it, leave the bit rate as it is or replace \<open>"auto"\<close> by a
  number, and nothing else.
\<close>

theorem settings_frame:
  "other_settings_kept s (snd (clip_compatibility av s)) \<and>
   bitrate_kept_or_resolved s (snd (clip_compatibility av s)) \<and>
   other_settings_kept s (fst (snd (start_recording av s ts))) \<and>
   bitrate_kept_or_resolved s (fst (snd (start_recording av s ts))) \<and>
   other_settings_kept s (fst (save_clip enc listdir s files frames)) \<and>
   CLIP_BITRATE (fst (save_clip enc listdir s files frames)) = CLIP_BITRATE s"
proof -
  note c = clip_compatibility_keeps [of s av]
  have "other_settings_kept s (fst (snd (start_recording av s ts))) \<and>
        bitrate_kept_or_resolved s (fst (snd (start_recording av s ts)))"
    using start_recording_state [of av s ts] c log_msg_keeps [of s "snd (clip_compatibility av s)"]
    by auto
  with c save_clip_keeps [of s enc listdir files frames] show ?thesis by simp
qed

text \<open>
  The claim as it was stated fails for the bit rate: with the defaults, where it is
  \<open>"auto"\<close>, \<open>clip_compatibility\<close> assigns 10000000 to \<open>CLIP_BITRATE\<close>, and so does
  \<open>start_recording\<close>.
\<close>

theorem bitrate_mutated_by_clip_compatibility:
  "CLIP_BITRATE default_state = Str ''auto'' \<and>
   CLIP_BITRATE (snd (clip_compatibility example_backend default_state)) = Num 10000000 \<and>
   CLIP_BITRATE (fst (snd (start_recording example_backend default_state ([] :: nat tick list)))) =
     Num 10000000"
proof -
  have d: "default_state\<lparr>CLIP_FPS := 30, CLIP_DURATION_SECONDS := 10\<rparr> = default_state"
    by (simp add: default_state_def)
  have dq: "deque_new (10 * 30) = Inr \<lparr>maxlen = 300, items = ([] :: nat list)\<rparr>"
    by (simp add: deque_new_def)
  have le: "(30 :: int) \<le> 30" by simp
  have run: "recording_loop 30 \<lparr>video_buffer = \<lparr>maxlen = 300, items = []\<rparr>, buffer_queue = []\<rparr>
               ([] :: nat tick list) =
             (Running, \<lparr>video_buffer = \<lparr>maxlen = 300, items = []\<rparr>, buffer_queue = []\<rparr>)"
    by simp
  note h = example_recording [OF le dq run, unfolded d]
  show ?thesis
    by (simp add: default_compatible h) (simp add: default_state_def)
qed

section \<open>The frames that reach the file\<close>

lemma encoder_output_direct: "encoder_output direct_encoder c frames = frames"
  by (induction frames) (simp_all add: direct_encoder_def)

lemma encoder_output_delaying_held:
  "encoder_output delaying_encoder (Some g) frames = butlast (g # frames)"
  by (induction frames arbitrary: g) (simp_all add: delaying_encoder_def)

lemma delaying_encoder_first:
  "fst (encode delaying_encoder None f) = []" "snd (encode delaying_encoder None f) = Some f"
  by (simp_all add: delaying_encoder_def)

lemma encoder_output_delaying:
  "encoder_output delaying_encoder None frames = butlast frames"
  by (cases frames) (simp_all add: delaying_encoder_first encoder_output_delaying_held)

text \<open>
  Claim C2, at the input where the code departs from it. For an empty buffer \<open>save_clip\<close>
  prints the error and writes nothing. For the buffer \<open>[10, 20, 30]\<close> it logs that it
  writes 3 frames and leaves one closed file; with an encoder that releases each packet
  at once the file holds the three packets in order, but with an encoder that holds one
  frame back the file holds only the first two: the loop muxes what each \<open>encode\<close> call
  returns, and after the loop the container is closed without the encoder being flushed.
\<close>

theorem save_clip_loses_held_frames:
  "save_clip delaying_encoder [] (default_state\<lparr>CLIP_BITRATE := Num 10000000\<rparr>) Map.empty [] =
     (default_state\<lparr>CLIP_BITRATE := Num 10000000, stdout := [''Error: No frames to save'']\<rparr>,
      Map.empty) \<and>
   save_clip direct_encoder [] (default_state\<lparr>CLIP_BITRATE := Num 10000000\<rparr>) Map.empty [10, 20, 30] =
     (default_state\<lparr>CLIP_BITRATE := Num 10000000,
        stdout := [''Saving clip'', ''Saving clip as ./clips/clip_0.mp4'',
                   ''Encoding clip. Writing 3 frames to file...'',
                   ''Clip saved as ./clips/clip_0.mp4'']\<rparr>,
      [''./clips/clip_0.mp4'' \<mapsto>
         \<lparr>streams = [clip_stream_settings (default_state\<lparr>CLIP_BITRATE := Num 10000000\<rparr>)],
          packets = [10, 20, 30], closed = True\<rparr>]) \<and>
   save_clip delaying_encoder [] (default_state\<lparr>CLIP_BITRATE := Num 10000000\<rparr>) Map.empty [10, 20, 30] =
     (default_state\<lparr>CLIP_BITRATE := Num 10000000,
        stdout := [''Saving clip'', ''Saving clip as ./clips/clip_0.mp4'',
                   ''Encoding clip. Writing 3 frames to file...'',
                   ''Clip saved as ./clips/clip_0.mp4'']\<rparr>,
      [''./clips/clip_0.mp4'' \<mapsto>
         \<lparr>streams = [clip_stream_settings (default_state\<lparr>CLIP_BITRATE := Num 10000000\<rparr>)],
          packets = [10, 20], closed = True\<rparr>])"
proof -
  let ?S = "default_state\<lparr>CLIP_BITRATE := Num 10000000\<rparr>"
  have ne: "[10, 20, 30 :: nat] \<noteq> []" by simp
  have e: "save_clip delaying_encoder [] ?S Map.empty [] =
             (default_state\<lparr>CLIP_BITRATE := Num 10000000, stdout := [''Error: No frames to save'']\<rparr>,
              Map.empty)"
    by (simp add: save_clip_empty py_print_def default_state_def)
  have a: "save_clip direct_encoder [] ?S Map.empty [10, 20, 30] =
     (default_state\<lparr>CLIP_BITRATE := Num 10000000,
        stdout := [''Saving clip'', ''Saving clip as ./clips/clip_0.mp4'',
                   ''Encoding clip. Writing 3 frames to file...'',
                   ''Clip saved as ./clips/clip_0.mp4'']\<rparr>,
      [''./clips/clip_0.mp4'' \<mapsto>
         \<lparr>streams = [clip_stream_settings ?S], packets = [10, 20, 30], closed = True\<rparr>])"
    by (subst save_clip_nonempty [OF ne])
       (simp add: direct_encoder_def default_state_def str_nat.simps)
  have b: "save_clip delaying_encoder [] ?S Map.empty [10, 20, 30] =
     (default_state\<lparr>CLIP_BITRATE := Num 10000000,
        stdout := [''Saving clip'', ''Saving clip as ./clips/clip_0.mp4'',
                   ''Encoding clip. Writing 3 frames to file...'',
                   ''Clip saved as ./clips/clip_0.mp4'']\<rparr>,
      [''./clips/clip_0.mp4'' \<mapsto>
         \<lparr>streams = [clip_stream_settings ?S], packets = [10, 20], closed = True\<rparr>])"
    by (subst save_clip_nonempty [OF ne])
       (simp add: delaying_encoder_def default_state_def str_nat.simps)
  from e a b show ?thesis by blast
qed

end
